theory Spec2Isabelle
  imports Main "HOL-Library.Word"
begin

section \<open>JavaScript strings\<close>

text \<open>
  A JavaScript string is a sequence of 16-bit code units. The value \<open>null\<close> that
  \<open>encodeText\<close> and \<open>decodeText\<close> return from their \<open>catch\<close> blocks is \<open>None\<close>.
\<close>

type_synonym code_unit = "16 word"
type_synonym js_string = "code_unit list"

definition ascii :: "string \<Rightarrow> js_string" where
  \<comment> \<open>an ASCII literal of the source as a JavaScript string\<close>
  "ascii s = map (\<lambda>c. of_nat (of_char c)) s"

definition is_lead :: "code_unit \<Rightarrow> bool" where
  \<comment> \<open>leading (high) surrogate, U+D800 to U+DBFF\<close>
  "is_lead c = (0xD800 \<le> unat c \<and> unat c \<le> 0xDBFF)"

definition is_trail :: "code_unit \<Rightarrow> bool" where
  \<comment> \<open>trailing (low) surrogate, U+DC00 to U+DFFF\<close>
  "is_trail c = (0xDC00 \<le> unat c \<and> unat c \<le> 0xDFFF)"

definition surrogate_pair_to_code_point :: "code_unit \<Rightarrow> code_unit \<Rightarrow> nat" where
  \<comment> \<open>ECMA-262 UTF16SurrogatePairToCodePoint\<close>
  "surrogate_pair_to_code_point l t =
     (unat l - 0xD800) * 0x400 + (unat t - 0xDC00) + 0x10000"

fun well_formed :: "js_string \<Rightarrow> bool" where
  \<comment> \<open>a valid Unicode string: every surrogate is half of a pair
      (\<open>String.prototype.isWellFormed\<close>)\<close>
  "well_formed [] = True"
| "well_formed (c # s) =
     (if is_lead c then (case s of [] \<Rightarrow> False | d # s' \<Rightarrow> is_trail d \<and> well_formed s')
      else \<not> is_trail c \<and> well_formed s)"

section \<open>Platform functions used by the codec\<close>

subsection \<open>Hexadecimal digits\<close>

definition hex_digit_upper :: "nat \<Rightarrow> code_unit" where
  "hex_digit_upper n = of_nat (if n < 10 then 0x30 + n else 0x41 + (n - 10))"

definition hex_digit_lower :: "nat \<Rightarrow> code_unit" where
  "hex_digit_lower n = of_nat (if n < 10 then 0x30 + n else 0x61 + (n - 10))"

definition hex_value :: "code_unit \<Rightarrow> nat option" where
  \<comment> \<open>value of a hexadecimal digit of either case, \<open>None\<close> for any other code unit\<close>
  "hex_value c =
     (let n = unat c in
      if 0x30 \<le> n \<and> n \<le> 0x39 then Some (n - 0x30)
      else if 0x41 \<le> n \<and> n \<le> 0x46 then Some (n - 0x41 + 10)
      else if 0x61 \<le> n \<and> n \<le> 0x66 then Some (n - 0x61 + 10)
      else None)"

definition is_upper_hex :: "code_unit \<Rightarrow> bool" where
  \<comment> \<open>the character class \<open>[0-9A-F]\<close>\<close>
  "is_upper_hex c =
     (let n = unat c in (0x30 \<le> n \<and> n \<le> 0x39) \<or> (0x41 \<le> n \<and> n \<le> 0x46))"

subsection \<open>encodeURIComponent\<close>

definition uri_unescaped :: "code_unit \<Rightarrow> bool" where
  \<comment> \<open>ASCII letters, digits and the marks \<open>- _ . ! ~ * ' ( )\<close>\<close>
  "uri_unescaped c =
     (let n = unat c in
      (0x41 \<le> n \<and> n \<le> 0x5A) \<or> (0x61 \<le> n \<and> n \<le> 0x7A) \<or> (0x30 \<le> n \<and> n \<le> 0x39)
      \<or> n = 0x2D \<or> n = 0x5F \<or> n = 0x2E \<or> n = 0x21 \<or> n = 0x7E \<or> n = 0x2A
      \<or> n = 0x27 \<or> n = 0x28 \<or> n = 0x29)"

definition utf8_octets :: "nat \<Rightarrow> nat list" where
  \<comment> \<open>the UTF-8 encoding of a code point\<close>
  "utf8_octets cp =
     (if cp < 0x80 then [cp]
      else if cp < 0x800 then [0xC0 + cp div 0x40, 0x80 + cp mod 0x40]
      else if cp < 0x10000 then
        [0xE0 + cp div 0x1000, 0x80 + cp div 0x40 mod 0x40, 0x80 + cp mod 0x40]
      else
        [0xF0 + cp div 0x40000, 0x80 + cp div 0x1000 mod 0x40,
         0x80 + cp div 0x40 mod 0x40, 0x80 + cp mod 0x40])"

definition percent_upper :: "nat \<Rightarrow> js_string" where
  \<comment> \<open>\<open>%\<close> and the octet as two uppercase hexadecimal digits\<close>
  "percent_upper b = [0x25, hex_digit_upper (b div 16), hex_digit_upper (b mod 16)]"

definition escape_code_point :: "nat \<Rightarrow> js_string" where
  "escape_code_point cp = concat (map percent_upper (utf8_octets cp))"

fun encodeURIComponent :: "js_string \<Rightarrow> js_string option" where
  \<comment> \<open>ECMA-262 Encode; \<open>None\<close> is the URIError thrown at an unpaired surrogate\<close>
  "encodeURIComponent [] = Some []"
| "encodeURIComponent (c # s) =
     (if uri_unescaped c then map_option ((#) c) (encodeURIComponent s)
      else if is_trail c then None
      else if is_lead c then
        (case s of
           [] \<Rightarrow> None
         | d # s' \<Rightarrow>
             if is_trail d then
               map_option ((@) (escape_code_point (surrogate_pair_to_code_point c d)))
                 (encodeURIComponent s')
             else None)
      else map_option ((@) (escape_code_point (unat c))) (encodeURIComponent s))"

subsection \<open>btoa\<close>

definition base64_char :: "nat \<Rightarrow> code_unit" where
  \<comment> \<open>the base64 table: \<open>A-Z\<close>, \<open>a-z\<close>, \<open>0-9\<close>, \<open>+\<close>, \<open>/\<close>\<close>
  "base64_char n =
     of_nat (if n < 26 then 0x41 + n
             else if n < 52 then 0x61 + (n - 26)
             else if n < 62 then 0x30 + (n - 52)
             else if n = 62 then 0x2B
             else 0x2F)"

fun base64_encode :: "nat list \<Rightarrow> js_string" where
  \<comment> \<open>base64 with \<open>=\<close> padding, three octets to four characters\<close>
  "base64_encode (a # b # c # bs) =
     [base64_char (a div 4), base64_char (a mod 4 * 16 + b div 16),
      base64_char (b mod 16 * 4 + c div 64), base64_char (c mod 64)] @ base64_encode bs"
| "base64_encode [a, b] =
     [base64_char (a div 4), base64_char (a mod 4 * 16 + b div 16),
      base64_char (b mod 16 * 4), 0x3D]"
| "base64_encode [a] = [base64_char (a div 4), base64_char (a mod 4 * 16), 0x3D, 0x3D]"
| "base64_encode [] = []"

definition btoa :: "js_string \<Rightarrow> js_string option" where
  \<comment> \<open>\<open>None\<close> is the InvalidCharacterError thrown at a code unit above U+00FF\<close>
  "btoa s = (if list_ex (\<lambda>c. 0xFF < unat c) s then None
             else Some (base64_encode (map unat s)))"

subsection \<open>atob\<close>

definition is_ascii_whitespace :: "code_unit \<Rightarrow> bool" where
  \<comment> \<open>TAB, LF, FF, CR and SPACE\<close>
  "is_ascii_whitespace c = (c = 0x09 \<or> c = 0x0A \<or> c = 0x0C \<or> c = 0x0D \<or> c = 0x20)"

definition base64_index :: "code_unit \<Rightarrow> nat option" where
  \<comment> \<open>position in the base64 table, \<open>None\<close> outside the table\<close>
  "base64_index c =
     (let n = unat c in
      if 0x41 \<le> n \<and> n \<le> 0x5A then Some (n - 0x41)
      else if 0x61 \<le> n \<and> n \<le> 0x7A then Some (n - 0x61 + 26)
      else if 0x30 \<le> n \<and> n \<le> 0x39 then Some (n - 0x30 + 52)
      else if n = 0x2B then Some 62
      else if n = 0x2F then Some 63
      else None)"

definition strip_padding :: "js_string \<Rightarrow> js_string" where
  \<comment> \<open>"if data ends with one or two \<open>=\<close>, remove them"\<close>
  "strip_padding d =
     (if 2 \<le> length d \<and> last d = 0x3D \<and> last (butlast d) = 0x3D then butlast (butlast d)
      else if d \<noteq> [] \<and> last d = 0x3D then butlast d
      else d)"

fun sextets_to_octets :: "nat list \<Rightarrow> nat list" where
  \<comment> \<open>24 bits give three octets; 18 left-over bits give two and 12 give one, the low
      bits discarded\<close>
  "sextets_to_octets (a # b # c # d # r) =
     [a * 4 + b div 16, b mod 16 * 16 + c div 4, c mod 4 * 64 + d] @ sextets_to_octets r"
| "sextets_to_octets [a, b, c] = [a * 4 + b div 16, b mod 16 * 16 + c div 4]"
| "sextets_to_octets [a, b] = [a * 4 + b div 16]"
| "sextets_to_octets [a] = []"
| "sextets_to_octets [] = []"

definition atob :: "js_string \<Rightarrow> js_string option" where
  \<comment> \<open>the forgiving-base64 decode of the WHATWG Infra standard; \<open>None\<close> is the
      InvalidCharacterError\<close>
  "atob data =
     (let d1 = filter (\<lambda>c. \<not> is_ascii_whitespace c) data;
          d2 = (if length d1 mod 4 = 0 then strip_padding d1 else d1)
      in if length d2 mod 4 = 1 then None
         else if list_ex (\<lambda>c. base64_index c = None) d2 then None
         else Some (map of_nat (sextets_to_octets (map (\<lambda>c. the (base64_index c)) d2))))"

subsection \<open>decodeURIComponent\<close>

definition leading_ones :: "nat \<Rightarrow> nat" where
  \<comment> \<open>the number of leading 1 bits of an octet (5 stands for "more than 4")\<close>
  "leading_ones b =
     (if b < 0x80 then 0 else if b < 0xC0 then 1 else if b < 0xE0 then 2
      else if b < 0xF0 then 3 else if b < 0xF8 then 4 else 5)"

definition parse_hex_octet :: "js_string \<Rightarrow> nat option" where
  \<comment> \<open>the two code units at the front read as hexadecimal digits\<close>
  "parse_hex_octet s =
     (case s of
        h1 # h2 # _ \<Rightarrow>
          (case hex_value h1 of
             None \<Rightarrow> None
           | Some a \<Rightarrow> (case hex_value h2 of None \<Rightarrow> None | Some b \<Rightarrow> Some (a * 16 + b)))
      | _ \<Rightarrow> None)"

fun continuation_octets :: "nat \<Rightarrow> js_string \<Rightarrow> nat list option" where
  \<comment> \<open>the next \<open>j\<close> escapes \<open>%XX\<close>; \<open>None\<close> when one of them is missing\<close>
  "continuation_octets 0 s = Some []"
| "continuation_octets (Suc j) s =
     (case s of
        [] \<Rightarrow> None
      | c # r \<Rightarrow>
          if c \<noteq> 0x25 then None
          else (case parse_hex_octet r of
                  None \<Rightarrow> None
                | Some b \<Rightarrow> map_option ((#) b) (continuation_octets j (drop 2 r))))"

definition is_continuation :: "nat \<Rightarrow> bool" where
  "is_continuation b = (0x80 \<le> b \<and> b \<le> 0xBF)"

fun utf8_code_point :: "nat list \<Rightarrow> nat option" where
  \<comment> \<open>the code point of a multi-octet sequence whose first octet announces its length;
      \<open>None\<close> unless it is a valid UTF-8 encoding: continuation octets in range, shortest
      form, no surrogate, at most U+10FFFF\<close>
  "utf8_code_point [a, b] =
     (let v = (a - 0xC0) * 0x40 + (b - 0x80)
      in if is_continuation b \<and> 0x80 \<le> v then Some v else None)"
| "utf8_code_point [a, b, c] =
     (let v = (a - 0xE0) * 0x1000 + (b - 0x80) * 0x40 + (c - 0x80)
      in if is_continuation b \<and> is_continuation c \<and> 0x800 \<le> v \<and> \<not> (0xD800 \<le> v \<and> v \<le> 0xDFFF)
         then Some v else None)"
| "utf8_code_point [a, b, c, d] =
     (let v = (a - 0xF0) * 0x40000 + (b - 0x80) * 0x1000 + (c - 0x80) * 0x40 + (d - 0x80)
      in if is_continuation b \<and> is_continuation c \<and> is_continuation d
            \<and> 0x10000 \<le> v \<and> v \<le> 0x10FFFF
         then Some v else None)"
| "utf8_code_point _ = None"

definition utf16_encode_code_point :: "nat \<Rightarrow> js_string" where
  \<comment> \<open>ECMA-262 UTF16EncodeCodePoint\<close>
  "utf16_encode_code_point cp =
     (if cp \<le> 0xFFFF then [of_nat cp]
      else [of_nat ((cp - 0x10000) div 0x400 + 0xD800),
            of_nat ((cp - 0x10000) mod 0x400 + 0xDC00)])"

function decodeURIComponent :: "js_string \<Rightarrow> js_string option" where
  \<comment> \<open>ECMA-262 Decode with no reserved set; \<open>None\<close> is the URIError\<close>
  "decodeURIComponent [] = Some []"
| "decodeURIComponent (c # s) =
     (if c \<noteq> 0x25 then map_option ((#) c) (decodeURIComponent s)
      else
        (case parse_hex_octet s of
           None \<Rightarrow> None
         | Some b \<Rightarrow>
             let n = leading_ones b in
             if n = 0 then map_option ((#) (of_nat b)) (decodeURIComponent (drop 2 s))
             else if n = 1 \<or> 4 < n then None
             else if length (drop 2 s) < 3 * (n - 1) then None
             else
               (case continuation_octets (n - 1) (drop 2 s) of
                  None \<Rightarrow> None
                | Some octets \<Rightarrow>
                    (case utf8_code_point (b # octets) of
                       None \<Rightarrow> None
                     | Some v \<Rightarrow>
                         map_option ((@) (utf16_encode_code_point v))
                           (decodeURIComponent (drop (2 + 3 * (n - 1)) s))))))"
  by pat_completeness auto
termination
  by (relation "measure length") auto

section \<open>The codec of the source\<close>

subsection \<open>String methods with the regular expressions of the source\<close>

definition toSolidBytes :: "code_unit \<Rightarrow> code_unit \<Rightarrow> code_unit" where
  \<comment> \<open>\<open>String.fromCharCode('0x' + p1)\<close> for the two captured digits\<close>
  "toSolidBytes h1 h2 =
     (case hex_value h1 of
        None \<Rightarrow> 0
      | Some a \<Rightarrow> (case hex_value h2 of None \<Rightarrow> 0 | Some b \<Rightarrow> of_nat (a * 16 + b)))"

fun replace_percent_escapes :: "js_string \<Rightarrow> js_string" where
  \<comment> \<open>\<open>.replace(/%([0-9A-F]{2})/g, toSolidBytes)\<close>: matches are taken left to right\<close>
  "replace_percent_escapes (c # h1 # h2 # s) =
     (if c = 0x25 \<and> is_upper_hex h1 \<and> is_upper_hex h2
      then toSolidBytes h1 h2 # replace_percent_escapes s
      else c # replace_percent_escapes (h1 # h2 # s))"
| "replace_percent_escapes (c # s) = c # replace_percent_escapes s"
| "replace_percent_escapes [] = []"

definition replace_all :: "code_unit \<Rightarrow> code_unit \<Rightarrow> js_string \<Rightarrow> js_string" where
  \<comment> \<open>\<open>.replace(/x/g, 'y')\<close> for single characters\<close>
  "replace_all x y s = map (\<lambda>c. if c = x then y else c) s"

definition strip_trailing_equals :: "js_string \<Rightarrow> js_string" where
  \<comment> \<open>\<open>.replace(/=+$/, '')\<close>\<close>
  "strip_trailing_equals s = rev (dropWhile (\<lambda>c. c = 0x3D) (rev s))"

fun toString16 :: "nat \<Rightarrow> js_string" where
  \<comment> \<open>\<open>Number.prototype.toString(16)\<close> on a non-negative integer\<close>
  "toString16 n =
     (if n < 16 then [hex_digit_lower n]
      else toString16 (n div 16) @ [hex_digit_lower (n mod 16)])"

definition slice_last2 :: "js_string \<Rightarrow> js_string" where
  \<comment> \<open>\<open>.slice(-2)\<close>\<close>
  "slice_last2 s = drop (length s - 2) s"

definition percent_lower :: "code_unit \<Rightarrow> js_string" where
  \<comment> \<open>\<open>'%' + ('00' + c.charCodeAt(0).toString(16)).slice(-2)\<close>\<close>
  "percent_lower c = 0x25 # slice_last2 (ascii ''00'' @ toString16 (unat c))"

subsection \<open>encodeText and decodeText\<close>

definition encodeText :: "js_string \<Rightarrow> js_string option" where
  "encodeText str =
     (case encodeURIComponent str of
        None \<Rightarrow> None
      | Some escaped \<Rightarrow>
          (case btoa (replace_percent_escapes escaped) of
             None \<Rightarrow> None
           | Some b64 \<Rightarrow>
               Some (strip_trailing_equals (replace_all 0x2F 0x5F (replace_all 0x2B 0x2D b64)))))"

definition decodeText :: "js_string \<Rightarrow> js_string option" where
  "decodeText str =
     (let base64 = replace_all 0x5F 0x2F (replace_all 0x2D 0x2B str);
          padding = replicate ((4 - length base64 mod 4) mod 4) 0x3D
      in case atob (base64 @ padding) of
           None \<Rightarrow> None
         | Some bin \<Rightarrow> decodeURIComponent (concat (map percent_lower bin)))"

section \<open>The application\<close>

subsection \<open>State\<close>

datatype mode = Create | View

datatype toast_type = Success | Error

record toast =
  message :: string
  toast_kind :: toast_type

record history_item =
  item_id :: int
  preview :: js_string
  date :: js_string
  link :: js_string

text \<open>
  The component state of \<open>App\<close> (the \<open>useState\<close> cells, prefixed \<open>st_\<close>) together
  with the two pieces of browser state the handlers read and write: the URL fragment
  behind \<open>window.location.hash\<close> and the \<open>localStorage\<close> item \<open>textshare_history\<close>
  (\<open>None\<close> when the key is absent).
\<close>

record session =
  st_text :: js_string
  st_mode :: mode
  st_darkMode :: bool
  st_generatedLink :: js_string
  st_toast :: "toast option"
  st_history :: "history_item list"
  st_showHistory :: bool
  st_showQR :: bool
  fragment :: js_string
  storage :: "js_string option"

text \<open>
  What a handler reads from the browser besides the session: the location, the clock,
  and the JSON functions. \<open>JSON_parse\<close> yields \<open>None\<close> where \<open>JSON.parse\<close> throws
  a SyntaxError. Reads and writes of \<open>localStorage\<close> themselves are taken to complete.
\<close>

record platform =
  origin :: js_string
  pathname :: js_string
  now :: int
  localeDate :: js_string
  JSON_stringify :: "history_item list \<Rightarrow> js_string"
  JSON_parse :: "js_string \<Rightarrow> history_item list option"

definition initial_state :: "js_string \<Rightarrow> js_string option \<Rightarrow> session" where
  \<comment> \<open>the \<open>useState\<close> initial values, in a browser with the given fragment and storage\<close>
  "initial_state frag stored =
     \<lparr>st_text = [], st_mode = Create, st_darkMode = True, st_generatedLink = [],
      st_toast = None, st_history = [], st_showHistory = False, st_showQR = False,
      fragment = frag, storage = stored\<rparr>"

definition showToast :: "string \<Rightarrow> toast_type \<Rightarrow> session \<Rightarrow> session" where
  "showToast msg ty w = w\<lparr>st_toast := Some \<lparr>message = msg, toast_kind = ty\<rparr>\<rparr>"

subsection \<open>The link router\<close>

definition location_hash :: "session \<Rightarrow> js_string" where
  \<comment> \<open>the getter \<open>window.location.hash\<close>: empty for an empty fragment, else \<open>#\<close> and
      the fragment\<close>
  "location_hash w = (if fragment w = [] then [] else 0x23 # fragment w)"

definition handleHashChange :: "session \<Rightarrow> session" where
  \<comment> \<open>\<open>if (hash)\<close> and \<open>if (decoded)\<close> test truthiness: \<open>null\<close> and the empty string
      are both falsy\<close>
  "handleHashChange w =
     (let hash = drop 1 (location_hash w) in
      if hash \<noteq> [] then
        (let invalid =
               (showToast ''Invalid or corrupted link'' Error w)
                 \<lparr>fragment := [], st_mode := Create\<rparr>
         in case decodeText hash of
              None \<Rightarrow> invalid
            | Some decoded \<Rightarrow>
                if decoded \<noteq> [] then w\<lparr>st_text := decoded, st_mode := View\<rparr> else invalid)
      else w\<lparr>st_mode := Create, st_text := []\<rparr>)"

function hashchange :: "session \<Rightarrow> session" where
  \<comment> \<open>a \<open>hashchange\<close> event reaches the listener; when the run itself changes the
      fragment (\<open>window.location.hash = ''\<close>), that change raises the event again\<close>
  "hashchange w =
     (let w' = handleHashChange w
      in if fragment w' = fragment w then w' else hashchange w')"
  by pat_completeness auto
termination
  by (relation "measure (\<lambda>w. length (fragment w))")
    (auto simp add: handleHashChange_def location_hash_def showToast_def Let_def
       split: option.splits if_splits)

declare hashchange.simps [simp del]

definition navigate :: "js_string \<Rightarrow> session \<Rightarrow> session" where
  \<comment> \<open>the fragment becomes \<open>f\<close> and the \<open>hashchange\<close> event is raised\<close>
  "navigate f w = hashchange (w\<lparr>fragment := f\<rparr>)"

subsection \<open>Link generation and the history store\<close>

definition is_js_whitespace :: "code_unit \<Rightarrow> bool" where
  \<comment> \<open>what \<open>String.prototype.trim\<close> removes: WhiteSpace and LineTerminator\<close>
  "is_js_whitespace c =
     (let n = unat c in
      n = 0x09 \<or> n = 0x0A \<or> n = 0x0B \<or> n = 0x0C \<or> n = 0x0D \<or> n = 0x20 \<or> n = 0xA0
      \<or> n = 0x1680 \<or> (0x2000 \<le> n \<and> n \<le> 0x200A) \<or> n = 0x2028 \<or> n = 0x2029
      \<or> n = 0x202F \<or> n = 0x205F \<or> n = 0x3000 \<or> n = 0xFEFF)"

definition trim :: "js_string \<Rightarrow> js_string" where
  "trim s = rev (dropWhile is_js_whitespace (rev (dropWhile is_js_whitespace s)))"

definition template_string :: "js_string option \<Rightarrow> js_string" where
  \<comment> \<open>\<open>${encoded}\<close> in a template literal: \<open>null\<close> is written as the text \<open>null\<close>\<close>
  "template_string v = (case v of None \<Rightarrow> ascii ''null'' | Some s \<Rightarrow> s)"

definition newHistoryItem :: "platform \<Rightarrow> js_string \<Rightarrow> js_string \<Rightarrow> history_item" where
  "newHistoryItem p txt lnk =
     \<lparr>item_id = now p,
      preview = take 30 txt @ (if 30 < length txt then ascii ''...'' else []),
      date = localeDate p,
      link = lnk\<rparr>"

definition updatedHistory :: "history_item \<Rightarrow> history_item list \<Rightarrow> history_item list" where
  \<comment> \<open>\<open>[newHistoryItem, ...history].slice(0, 5)\<close>\<close>
  "updatedHistory item history = take 5 (item # history)"

definition handleGenerate :: "platform \<Rightarrow> session \<Rightarrow> session" where
  "handleGenerate p w =
     (if trim (st_text w) = [] then showToast ''Please enter some text first!'' Error w
      else
        (let encoded = encodeText (st_text w);
             lnk = origin p @ pathname p @ [0x23] @ template_string encoded;
             updated = updatedHistory (newHistoryItem p (st_text w) lnk) (st_history w)
         in showToast ''Link generated successfully!'' Success
              (w\<lparr>st_generatedLink := lnk,
                 st_history := updated,
                 storage := Some (JSON_stringify p updated)\<rparr>)))"

subsection \<open>Loading the history at start-up\<close>

datatype 'a completion = Returns 'a | Throws

definition loadHistory :: "platform \<Rightarrow> session \<Rightarrow> session completion" where
  \<comment> \<open>\<open>if (savedHistory) setHistory(JSON.parse(savedHistory))\<close>, with no \<open>try\<close> around it\<close>
  "loadHistory p w =
     (case storage w of
        None \<Rightarrow> Returns w
      | Some savedHistory \<Rightarrow>
          if savedHistory = [] then Returns w
          else (case JSON_parse p savedHistory of
                  None \<Rightarrow> Throws
                | Some parsed \<Rightarrow> Returns (w\<lparr>st_history := parsed\<rparr>)))"

definition mountEffect :: "platform \<Rightarrow> session \<Rightarrow> session completion" where
  \<comment> \<open>the first \<open>useEffect\<close>: load the history, then route the fragment present; the
      listener is registered right after that call, so it receives the event the call
      may raise\<close>
  "mountEffect p w =
     (case loadHistory p w of
        Throws \<Rightarrow> Throws
      | Returns w' \<Rightarrow> Returns (hashchange w'))"

subsection \<open>A platform for the evaluated examples\<close>

text \<open>
  The examples below run at a fixed location, clock and date. The JSON functions of this
  platform are stand-ins that know the empty list only; the one stored text an example
  reads is \<open>{\<close>, which every JSON parser rejects.
\<close>

definition example_platform :: platform where
  "example_platform =
     \<lparr>origin = ascii ''https://x.test'', pathname = ascii ''/app'',
      now = 1700000000000, localeDate = ascii ''11/14/2023'',
      JSON_stringify = (\<lambda>h. if h = [] then ascii ''[]'' else ascii ''[...]''),
      JSON_parse = (\<lambda>s. if s = ascii ''[]'' then Some [] else None)\<rparr>"

definition fresh_with_text :: "js_string \<Rightarrow> session" where
  \<comment> \<open>a fresh session, no fragment and nothing stored, after the text was typed\<close>
  "fresh_with_text t = (initial_state [] None)\<lparr>st_text := t\<rparr>"

section \<open>Notions used in the statements and proofs\<close>

fun utf8_string :: "js_string \<Rightarrow> nat list" where
  \<comment> \<open>the UTF-8 octets of a well-formed string\<close>
  "utf8_string [] = []"
| "utf8_string (c # s) =
     (if is_lead c then
        (case s of
           [] \<Rightarrow> []
         | d # s' \<Rightarrow> utf8_octets (surrogate_pair_to_code_point c d) @ utf8_string s')
      else utf8_octets (unat c) @ utf8_string s)"

fun base64_body :: "nat list \<Rightarrow> js_string" where
  \<comment> \<open>\<open>base64_encode\<close> without its padding\<close>
  "base64_body (a # b # c # bs) =
     [base64_char (a div 4), base64_char (a mod 4 * 16 + b div 16),
      base64_char (b mod 16 * 4 + c div 64), base64_char (c mod 64)] @ base64_body bs"
| "base64_body [a, b] =
     [base64_char (a div 4), base64_char (a mod 4 * 16 + b div 16),
      base64_char (b mod 16 * 4)]"
| "base64_body [a] = [base64_char (a div 4), base64_char (a mod 4 * 16)]"
| "base64_body [] = []"

definition is_token_char :: "code_unit \<Rightarrow> bool" where
  \<comment> \<open>the character class \<open>[A-Za-z0-9_-]\<close>\<close>
  "is_token_char c =
     (let n = unat c in
      (0x41 \<le> n \<and> n \<le> 0x5A) \<or> (0x61 \<le> n \<and> n \<le> 0x7A) \<or> (0x30 \<le> n \<and> n \<le> 0x39)
      \<or> n = 0x5F \<or> n = 0x2D)"


definition to_url :: "code_unit \<Rightarrow> code_unit" where
  \<comment> \<open>the two replacements of \<open>encodeText\<close> on one character\<close>
  "to_url c = (if c = 0x2B then 0x2D else if c = 0x2F then 0x5F else c)"

definition from_url :: "code_unit \<Rightarrow> code_unit" where
  \<comment> \<open>the two replacements of \<open>decodeText\<close> on one character\<close>
  "from_url c = (if c = 0x2D then 0x2B else if c = 0x5F then 0x2F else c)"

definition lower_escape :: "nat \<Rightarrow> js_string" where
  \<comment> \<open>what \<open>percent_lower\<close> makes of an octet\<close>
  "lower_escape b = [0x25, hex_digit_lower (b div 16), hex_digit_lower (b mod 16)]"

definition valid_code_point :: "nat \<Rightarrow> bool" where
  \<comment> \<open>a Unicode scalar value\<close>
  "valid_code_point cp = (cp < 0x110000 \<and> \<not> (0xD800 \<le> cp \<and> cp \<le> 0xDFFF))"

section \<open>Codec\<close>

declare toString16.simps [simp del]
declare decodeURIComponent.simps [simp del]

lemma unat_of_nat16: "n < 65536 \<Longrightarrow> unat (of_nat n :: code_unit) = n"
  by (simp add: unat_of_nat)

lemma unat_lt16: "unat (c :: code_unit) < 65536"
  using unsigned_less [of c, where ?'a = nat] by simp

lemma code_unit_eq_iff: "(c :: code_unit) = d \<longleftrightarrow> unat c = unat d"
  by (simp add: word_unat_eq_iff)

lemma hex_value_upper: "d < 16 \<Longrightarrow> hex_value (hex_digit_upper d) = Some d"
  by (auto simp add: hex_value_def hex_digit_upper_def unat_of_nat16 Let_def)

lemma hex_value_lower: "d < 16 \<Longrightarrow> hex_value (hex_digit_lower d) = Some d"
  by (auto simp add: hex_value_def hex_digit_lower_def unat_of_nat16 Let_def)

lemma is_upper_hex_upper: "d < 16 \<Longrightarrow> is_upper_hex (hex_digit_upper d)"
  by (auto simp add: is_upper_hex_def hex_digit_upper_def unat_of_nat16 Let_def)

lemma div_mod_16: "(b::nat) div 16 * 16 + b mod 16 = b"
  by simp

lemma replace_percent_upper:
  "b < 256 \<Longrightarrow> replace_percent_escapes (percent_upper b @ r) = of_nat b # replace_percent_escapes r"
  by (simp add: percent_upper_def toSolidBytes_def hex_value_upper is_upper_hex_upper)

lemma uri_unescaped_not_percent: "uri_unescaped c \<Longrightarrow> c \<noteq> 0x25"
  by (auto simp add: uri_unescaped_def Let_def)

lemma replace_unescaped:
  "uri_unescaped c \<Longrightarrow> replace_percent_escapes (c # r) = c # replace_percent_escapes r"
  by (cases r rule: replace_percent_escapes.cases) (simp_all add: uri_unescaped_not_percent)

lemma uri_unescaped_ascii: "uri_unescaped c \<Longrightarrow> unat c < 0x80"
  by (auto simp add: uri_unescaped_def Let_def)




lemma utf8_octets_bytes: "cp < 0x200000 \<Longrightarrow> list_all (\<lambda>b. b < 256) (utf8_octets cp)"
  by (auto simp add: utf8_octets_def; arith)

lemma surrogate_pair_range:
  "is_lead l \<Longrightarrow> is_trail t \<Longrightarrow>
     0x10000 \<le> surrogate_pair_to_code_point l t \<and> surrogate_pair_to_code_point l t < 0x110000"
  by (simp add: is_lead_def is_trail_def surrogate_pair_to_code_point_def) arith

lemma replace_percent_octets:
  "list_all (\<lambda>b. b < 256) bs \<Longrightarrow>
     replace_percent_escapes (concat (map percent_upper bs) @ r)
       = map of_nat bs @ replace_percent_escapes r"
  by (induction bs) (simp_all add: replace_percent_upper)

lemma replace_escape_code_point:
  "cp < 0x200000 \<Longrightarrow>
     replace_percent_escapes (escape_code_point cp @ r)
       = map of_nat (utf8_octets cp) @ replace_percent_escapes r"
  unfolding escape_code_point_def
  by (rule replace_percent_octets) (rule utf8_octets_bytes)

lemma utf8_octets_ascii: "n < 0x80 \<Longrightarrow> utf8_octets n = [n]"
  by (simp add: utf8_octets_def)

lemma encodeURIComponent_well_formed:
  "well_formed s \<Longrightarrow>
     \<exists>e. encodeURIComponent s = Some e
        \<and> replace_percent_escapes e = map of_nat (utf8_string s)"
proof (induction s rule: well_formed.induct)
  case 1
  show ?case by simp
next
  case (2 c s)
  show ?case
  proof (cases "is_lead c")
    case True
    with "2.prems" obtain d s' where s: "s = d # s'" and d: "is_trail d" and w: "well_formed s'"
      by (auto split: list.splits)
    from "2.IH"(1) [OF True s w] obtain e where
      e: "encodeURIComponent s' = Some e" "replace_percent_escapes e = map of_nat (utf8_string s')"
      by blast
    have nu: "\<not> uri_unescaped c" using True uri_unescaped_ascii [of c] by (auto simp add: is_lead_def)
    have nt: "\<not> is_trail c" using True by (simp add: is_lead_def is_trail_def)
    have r: "surrogate_pair_to_code_point c d < 0x200000"
      using surrogate_pair_range [OF True d] by simp
    show ?thesis
      using True s d e nu nt by (simp add: replace_escape_code_point [OF r])
  next
    case False
    with "2.prems" have nt: "\<not> is_trail c" and w: "well_formed s" by simp_all
    from "2.IH"(2) [OF False w] obtain e where
      e: "encodeURIComponent s = Some e" "replace_percent_escapes e = map of_nat (utf8_string s)"
      by blast
    show ?thesis
    proof (cases "uri_unescaped c")
      case True
      then show ?thesis
        using False e uri_unescaped_ascii [OF True]
        by (simp add: replace_unescaped utf8_octets_ascii)
    next
      case u: False
      have r: "unat c < 0x200000" using unat_lt16 [of c] by simp
      show ?thesis
        using False u nt e by (simp add: replace_escape_code_point [OF r])
    qed
  qed
qed

lemma encodeURIComponent_Some_well_formed:
  "encodeURIComponent s = Some e \<Longrightarrow> well_formed s"
proof (induction s arbitrary: e rule: well_formed.induct)
  case 1
  show ?case by simp
next
  case (2 c s)
  show ?case
  proof (cases "uri_unescaped c")
    case True
    then have "\<not> is_lead c" "\<not> is_trail c"
      using uri_unescaped_ascii [OF True] by (simp_all add: is_lead_def is_trail_def)
    then show ?thesis using True "2.prems" "2.IH"(2) by auto
  next
    case False
    then show ?thesis using "2.prems" "2.IH"
      by (auto split: if_splits list.splits)
  qed
qed




lemma byte_div16: "(b::nat) < 256 \<Longrightarrow> b div 16 < 16" by arith
lemma byte_div64: "(c::nat) < 256 \<Longrightarrow> c div 64 < 4" by arith
lemma byte_div4: "(a::nat) < 256 \<Longrightarrow> a div 4 < 64" by arith

lemma divmod16: "(r::nat) < 16 \<Longrightarrow> (q * 16 + r) div 16 = q \<and> (q * 16 + r) mod 16 = r" by simp
lemma divmod4: "(r::nat) < 4 \<Longrightarrow> (q * 4 + r) div 4 = q \<and> (q * 4 + r) mod 4 = r" by simp

lemma sextet2_bound: "b < 256 \<Longrightarrow> (a::nat) mod 4 * 16 + b div 16 < 64"
proof -
  assume "b < 256"
  then have "b div 16 < 16" by (rule byte_div16)
  moreover have "a mod 4 < 4" by simp
  ultimately show ?thesis by linarith
qed

lemma sextet3_bound: "c < 256 \<Longrightarrow> (b::nat) mod 16 * 4 + c div 64 < 64"
proof -
  assume "c < 256"
  then have "c div 64 < 4" by (rule byte_div64)
  moreover have "b mod 16 < 16" by simp
  ultimately show ?thesis by linarith
qed

lemma sextet3_bound_last: "(b::nat) mod 16 * 4 < 64"
proof -
  have "b mod 16 < 16" by simp
  then show ?thesis by linarith
qed

lemma sextet2_bound_last: "(a::nat) mod 4 * 16 < 64"
proof -
  have "a mod 4 < 4" by simp
  then show ?thesis by linarith
qed

lemma octet1_restored: "b < 256 \<Longrightarrow> (a::nat) div 4 * 4 + (a mod 4 * 16 + b div 16) div 16 = a"
  using divmod16 [of "b div 16" "a mod 4"] byte_div16 [of b] by simp

lemma octet2_restored: "b < 256 \<Longrightarrow> c < 256 \<Longrightarrow> ((a::nat) mod 4 * 16 + b div 16) mod 16 * 16 + (b mod 16 * 4 + c div 64) div 4 = b"
  using divmod16 [of "b div 16" "a mod 4"] byte_div16 [of b] divmod4 [of "c div 64" "b mod 16"] byte_div64 [of c] by simp

lemma octet3_restored: "c < 256 \<Longrightarrow> ((b::nat) mod 16 * 4 + c div 64) mod 4 * 64 + c mod 64 = c"
  using divmod4 [of "c div 64" "b mod 16"] byte_div64 [of c] by simp

lemma octet2_restored_last: "(b::nat) < 256 \<Longrightarrow> (a mod 4 * 16 + b div 16) mod 16 * 16 + (b mod 16 * 4) div 4 = b"
  using divmod16 [of "b div 16" "a mod 4"] byte_div16 [of b] by simp

lemma octet1_restored_last: "(a::nat) div 4 * 4 + (a mod 4 * 16) div 16 = a"
  by simp



lemma unat_base64_char:
  "unat (base64_char n) =
     (if n < 26 then 0x41 + n
      else if n < 52 then 0x61 + (n - 26)
      else if n < 62 then 0x30 + (n - 52)
      else if n = 62 then 0x2B
      else 0x2F)"
  unfolding base64_char_def by (rule unat_of_nat16) auto

lemma base64_index_char: "n < 64 \<Longrightarrow> base64_index (base64_char n) = Some n"
  unfolding base64_index_def unat_base64_char Let_def by auto

lemma base64_char_in_table: "\<exists>y. base64_index (base64_char n) = Some y"
  unfolding base64_index_def unat_base64_char Let_def by auto

lemma mod3_Suc3: "Suc (Suc (Suc n)) mod 3 = n mod 3"
  by (metis One_nat_def Suc_1 add_Suc_right mod_add_self2 numeral_3_eq_3 plus_1_eq_Suc add.commute)

lemma mod4_Suc4: "Suc (Suc (Suc (Suc n))) mod 4 = n mod 4"
proof -
  have "Suc (Suc (Suc (Suc n))) = n + 4" by simp
  then show ?thesis by (simp only: mod_add_self2)
qed

lemma base64_encode_body:
  "base64_encode bs = base64_body bs @ replicate ((3 - length bs mod 3) mod 3) 0x3D"
  by (induction bs rule: base64_encode.induct) (simp_all add: mod3_Suc3 numeral_2_eq_2)

lemma base64_body_in_table: "list_all (\<lambda>c. \<exists>y. base64_index c = Some y) (base64_body bs)"
  by (induction bs rule: base64_body.induct) (simp_all add: base64_char_in_table)

lemma length_base64_body:
  "length (base64_body bs) mod 4 = (if length bs mod 3 = 0 then 0 else length bs mod 3 + 1)"
  by (induction bs rule: base64_body.induct) (simp_all add: mod3_Suc3 mod4_Suc4)

lemma sextets_quad:
  "a < 256 \<Longrightarrow> b < 256 \<Longrightarrow> c < 256 \<Longrightarrow>
     sextets_to_octets
       (a div 4 # (a mod 4 * 16 + b div 16) # (b mod 16 * 4 + c div 64) # c mod 64 # r)
     = a # b # c # sextets_to_octets r"
  by (simp only: sextets_to_octets.simps octet1_restored octet2_restored octet3_restored
        append_Cons append_Nil)

lemma sextets_triple:
  "a < 256 \<Longrightarrow> b < 256 \<Longrightarrow>
     sextets_to_octets [a div 4, a mod 4 * 16 + b div 16, b mod 16 * 4] = [a, b]"
  by (simp only: sextets_to_octets.simps octet1_restored octet2_restored_last)

lemma sextets_pair:
  "sextets_to_octets [a div 4, a mod 4 * 16] = [a]"
  by (simp only: sextets_to_octets.simps octet1_restored_last)

lemma sextets_base64_body:
  "list_all (\<lambda>b. b < 256) bs \<Longrightarrow>
     sextets_to_octets (map (\<lambda>c. the (base64_index c)) (base64_body bs)) = bs"
proof (induction bs rule: base64_body.induct)
  case (1 a b c bs)
  then have a: "a < 256" and b: "b < 256" and c: "c < 256"
    and r: "list_all (\<lambda>b. b < 256) bs" by simp_all
  have m: "map (\<lambda>c. the (base64_index c)) (base64_body (a # b # c # bs))
           = a div 4 # (a mod 4 * 16 + b div 16) # (b mod 16 * 4 + c div 64) # c mod 64
             # map (\<lambda>c. the (base64_index c)) (base64_body bs)"
    by (simp add: base64_index_char byte_div4 [OF a] sextet2_bound [OF b] sextet3_bound [OF c])
  show ?case unfolding m sextets_quad [OF a b c] using "1.IH" [OF r] by simp
next
  case (2 a b)
  then have a: "a < 256" and b: "b < 256" by simp_all
  have m: "map (\<lambda>c. the (base64_index c)) (base64_body [a, b])
           = [a div 4, a mod 4 * 16 + b div 16, b mod 16 * 4]"
    by (simp add: base64_index_char byte_div4 [OF a] sextet2_bound [OF b] sextet3_bound_last)
  show ?case unfolding m by (rule sextets_triple [OF a b])
next
  case (3 a)
  then have a: "a < 256" by simp
  have m: "map (\<lambda>c. the (base64_index c)) (base64_body [a]) = [a div 4, a mod 4 * 16]"
    by (simp add: base64_index_char byte_div4 [OF a] sextet2_bound_last)
  show ?case unfolding m by (rule sextets_pair)
next
  case 4
  show ?case by simp
qed




lemma in_table_not_padding: "base64_index c = Some y \<Longrightarrow> c \<noteq> 0x3D"
  by (auto simp add: base64_index_def Let_def split: if_splits)

lemma in_table_not_whitespace: "base64_index c = Some y \<Longrightarrow> \<not> is_ascii_whitespace c"
  by (auto simp add: base64_index_def is_ascii_whitespace_def Let_def split: if_splits)

lemma padding_not_whitespace: "\<not> is_ascii_whitespace 0x3D"
  by (simp add: is_ascii_whitespace_def)

lemma padding_not_in_table: "base64_index 0x3D = None"
  by (simp add: base64_index_def)

lemma base64_body_no_padding: "0x3D \<notin> set (base64_body bs)"
  using base64_body_in_table [of bs] in_table_not_padding
  by (auto simp add: list_all_iff)

lemma base64_body_no_whitespace: "filter (\<lambda>c. \<not> is_ascii_whitespace c) (base64_body bs) = base64_body bs"
  using base64_body_in_table [of bs] in_table_not_whitespace
  by (auto simp add: list_all_iff filter_id_conv)

lemma strip_padding_replicate:
  assumes "0x3D \<notin> set xs" and "k \<le> 2"
  shows "strip_padding (xs @ replicate k 0x3D) = xs"
proof -
  have l: "xs \<noteq> [] \<Longrightarrow> last xs \<noteq> 0x3D"
  proof
    assume "xs \<noteq> []" and "last xs = 0x3D"
    then have "0x3D \<in> set xs" using last_in_set [of xs] by metis
    with assms(1) show False by simp
  qed
  from assms(2) consider "k = 0" | "k = 1" | "k = 2" by linarith
  then show ?thesis
  proof cases
    case 1
    then show ?thesis using l by (auto simp add: strip_padding_def)
  next
    case 2
    then show ?thesis using l by (cases "xs = []") (auto simp add: strip_padding_def)
  next
    case 3
    then have r: "xs @ replicate k 0x3D = xs @ [0x3D, 0x3D]" by (simp add: numeral_2_eq_2)
    show ?thesis unfolding r strip_padding_def by (simp add: butlast_append)
  qed
qed

lemma padding_count: "(3 - n mod 3) mod 3 \<le> (2::nat)"
proof -
  have "(3 - n mod 3) mod 3 < 3" by (rule mod_less_divisor) simp
  then show ?thesis by simp
qed

lemma length_base64_encode: "length (base64_encode bs) mod 4 = 0"
  by (induction bs rule: base64_encode.induct) (simp_all add: mod4_Suc4)

lemma length_base64_body_not_1: "length (base64_body bs) mod 4 \<noteq> 1"
  unfolding length_base64_body by simp

lemma atob_base64_encode:
  assumes "list_all (\<lambda>b. b < 256) bs"
  shows "atob (base64_encode bs) = Some (map of_nat bs)"
proof -
  let ?k = "(3 - length bs mod 3) mod 3"
  have f: "filter (\<lambda>c. \<not> is_ascii_whitespace c) (base64_encode bs) = base64_encode bs"
    unfolding base64_encode_body
    by (simp add: base64_body_no_whitespace padding_not_whitespace)
  have s: "strip_padding (base64_encode bs) = base64_body bs"
    unfolding base64_encode_body
    by (rule strip_padding_replicate [OF base64_body_no_padding padding_count])
  have t: "\<not> list_ex (\<lambda>c. base64_index c = None) (base64_body bs)"
    using base64_body_in_table [of bs] by (auto simp add: list_all_iff list_ex_iff)
  show ?thesis
    unfolding atob_def f Let_def
    using length_base64_encode [of bs] s t length_base64_body_not_1 [of bs]
      sextets_base64_body [OF assms]
    by simp
qed




lemma surrogate_pair_bound: "is_lead c \<Longrightarrow> surrogate_pair_to_code_point c d < 0x200000"
proof -
  assume "is_lead c"
  moreover have "unat d < 65536" by (rule unat_lt16)
  ultimately show ?thesis
    unfolding surrogate_pair_to_code_point_def is_lead_def by simp arith
qed

lemma utf8_string_bytes: "list_all (\<lambda>b. b < 256) (utf8_string s)"
proof (induction s rule: utf8_string.induct)
  case 1
  show ?case by simp
next
  case (2 c s)
  have u: "unat c < 0x200000" using unat_lt16 [of c] by simp
  show ?case
  proof (cases "is_lead c")
    case True
    then show ?thesis
      using 2 utf8_octets_bytes [OF surrogate_pair_bound [OF True]]
      by (auto split: list.splits)
  next
    case False
    then show ?thesis using 2 utf8_octets_bytes [OF u] by simp
  qed
qed

lemma map_unat_of_nat: "list_all (\<lambda>b. b < 256) bs \<Longrightarrow> map unat (map of_nat bs :: js_string) = bs"
  by (induction bs) (simp_all add: unat_of_nat16)

lemma btoa_octets:
  assumes "list_all (\<lambda>b. b < 256) bs"
  shows "btoa (map of_nat bs) = Some (base64_encode bs)"
proof -
  have h: "list_ex (\<lambda>c. 0xFF < unat c) (map of_nat bs :: js_string) = False"
    using assms by (induction bs) (simp_all add: unat_of_nat16)
  show ?thesis by (simp only: btoa_def h if_False map_unat_of_nat [OF assms])
qed

lemma strip_trailing_equals_replicate:
  assumes "0x3D \<notin> set xs"
  shows "strip_trailing_equals (xs @ replicate k 0x3D) = xs"
proof -
  have "dropWhile (\<lambda>c. c = 0x3D) (replicate k 0x3D @ rev xs) = dropWhile (\<lambda>c. c = 0x3D) (rev xs)"
    by (rule dropWhile_append2) simp
  also have "\<dots> = rev xs"
    using assms by (cases "rev xs") (auto simp add: dropWhile_eq_self_iff)
  finally show ?thesis by (simp add: strip_trailing_equals_def)
qed

lemma token_char_not_padding: "is_token_char c \<Longrightarrow> c \<noteq> 0x3D"
  by (auto simp add: is_token_char_def Let_def)




lemma replace_all_append: "replace_all x y (a @ b) = replace_all x y a @ replace_all x y b"
  by (simp add: replace_all_def)

lemma replace_all_padding: "x \<noteq> 0x3D \<Longrightarrow> replace_all x y (replicate k 0x3D) = replicate k 0x3D"
  by (simp add: replace_all_def)

lemma length_replace_all: "length (replace_all x y s) = length s"
  by (simp add: replace_all_def)

lemma replace_to_url: "replace_all 0x2F 0x5F (replace_all 0x2B 0x2D s) = map to_url s"
  by (simp add: replace_all_def to_url_def)

lemma replace_from_url: "replace_all 0x5F 0x2F (replace_all 0x2D 0x2B s) = map from_url s"
  by (simp add: replace_all_def from_url_def)

lemma in_table_to_token_char: "base64_index c = Some y \<Longrightarrow> is_token_char (to_url c)"
proof -
  assume a: "base64_index c = Some y"
  show ?thesis
  proof (cases "c = 0x2B \<or> c = 0x2F")
    case True
    then show ?thesis by (auto simp add: to_url_def is_token_char_def)
  next
    case False
    then have "unat c \<noteq> 0x2B" "unat c \<noteq> 0x2F" by (simp_all add: code_unit_eq_iff)
    with a False show ?thesis
      by (auto simp add: to_url_def is_token_char_def base64_index_def Let_def split: if_splits)
  qed
qed

lemma from_url_to_url: "base64_index c = Some y \<Longrightarrow> from_url (to_url c) = c"
proof -
  assume a: "base64_index c = Some y"
  have "c \<noteq> 0x2D" "c \<noteq> 0x5F"
    using a by (auto simp add: base64_index_def Let_def split: if_splits)
  then show ?thesis by (simp add: to_url_def from_url_def)
qed

lemma token_of_body: "list_all is_token_char (map to_url (base64_body bs))"
  using base64_body_in_table [of bs] in_table_to_token_char
  by (auto simp add: list_all_iff)

lemma token_of_body_no_padding: "0x3D \<notin> set (map to_url (base64_body bs))"
  using token_of_body [of bs] token_char_not_padding by (auto simp add: list_all_iff)

lemma body_of_token: "map from_url (map to_url (base64_body bs)) = base64_body bs"
proof -
  have "\<forall>c \<in> set (base64_body bs). from_url (to_url c) = c"
    using base64_body_in_table [of bs] from_url_to_url by (auto simp add: list_all_iff)
  then show ?thesis by (simp add: map_idI)
qed

lemma to_url_padding: "map to_url (replicate k 0x3D) = replicate k 0x3D"
  by (simp add: to_url_def)

lemma encodeText_octets:
  assumes "encodeURIComponent t = Some e"
    and "replace_percent_escapes e = map of_nat bs"
    and "list_all (\<lambda>b. b < 256) bs"
  shows "encodeText t = Some (map to_url (base64_body bs))"
proof -
  have "strip_trailing_equals (map to_url (base64_encode bs)) = map to_url (base64_body bs)"
    unfolding base64_encode_body map_append to_url_padding
    by (rule strip_trailing_equals_replicate) (rule token_of_body_no_padding)
  then show ?thesis
    by (simp add: encodeText_def assms(1) assms(2) btoa_octets [OF assms(3)] replace_to_url)
qed

lemma encodeText_well_formed:
  assumes "well_formed t"
  shows "encodeText t = Some (map to_url (base64_body (utf8_string t)))"
proof -
  from encodeURIComponent_well_formed [OF assms] obtain e where
    "encodeURIComponent t = Some e" "replace_percent_escapes e = map of_nat (utf8_string t)"
    by blast
  then show ?thesis by (rule encodeText_octets) (rule utf8_string_bytes)
qed

lemma encodeText_Some_well_formed: "encodeText t = Some token \<Longrightarrow> well_formed t"
  by (auto simp add: encodeText_def split: option.splits dest: encodeURIComponent_Some_well_formed)

lemma padding_restored:
  "(4 - length (base64_body bs) mod 4) mod 4 = (3 - length bs mod 3) mod 3"
proof -
  have "length bs mod 3 < 3" by simp
  then consider "length bs mod 3 = 0" | "length bs mod 3 = 1" | "length bs mod 3 = 2"
    by linarith
  then show ?thesis by cases (simp_all add: length_base64_body)
qed

lemma decodeText_token_of_body:
  assumes "list_all (\<lambda>b. b < 256) bs"
  shows "decodeText (map to_url (base64_body bs))
         = decodeURIComponent (concat (map percent_lower (map of_nat bs)))"
  unfolding decodeText_def replace_from_url body_of_token Let_def padding_restored
    base64_encode_body [symmetric] atob_base64_encode [OF assms]
  by simp




lemma toString16_octet:
  "b < 256 \<Longrightarrow>
     slice_last2 (ascii ''00'' @ toString16 b) = [hex_digit_lower (b div 16), hex_digit_lower (b mod 16)]"
proof (cases "b < 16")
  case True
  then have "toString16 b = [hex_digit_lower b]" by (simp add: toString16.simps)
  with True show ?thesis by (simp add: slice_last2_def ascii_def hex_digit_lower_def)
next
  case False
  assume "b < 256"
  then have "b div 16 < 16" by (rule byte_div16)
  then have "toString16 (b div 16) = [hex_digit_lower (b div 16)]" by (simp add: toString16.simps)
  with False have "toString16 b = [hex_digit_lower (b div 16), hex_digit_lower (b mod 16)]"
    by (subst toString16.simps) simp
  then show ?thesis by (simp add: slice_last2_def ascii_def)
qed

lemma percent_lower_octet: "b < 256 \<Longrightarrow> percent_lower (of_nat b) = lower_escape b"
  by (simp add: percent_lower_def lower_escape_def unat_of_nat16 toString16_octet)

lemma percent_lower_octets:
  "list_all (\<lambda>b. b < 256) bs \<Longrightarrow>
     concat (map percent_lower (map of_nat bs)) = concat (map lower_escape bs)"
  by (induction bs) (simp_all add: percent_lower_octet)

lemma parse_lower_escape:
  "b < 256 \<Longrightarrow> parse_hex_octet (hex_digit_lower (b div 16) # hex_digit_lower (b mod 16) # r) = Some b"
  by (simp add: parse_hex_octet_def hex_value_lower byte_div16)

lemma continuation_lower_escape:
  "b < 256 \<Longrightarrow>
     continuation_octets (Suc j) (lower_escape b @ r) = map_option ((#) b) (continuation_octets j r)"
  by (simp add: lower_escape_def parse_lower_escape)

lemma drop_2_plus: "drop (2 + k) (x # y # r) = drop k r"
  by (simp add: numeral_2_eq_2)

lemma decode_lower_escape:
  "b < 256 \<Longrightarrow>
     decodeURIComponent (lower_escape b @ r) =
       (let n = leading_ones b in
        if n = 0 then map_option ((#) (of_nat b)) (decodeURIComponent r)
        else if n = 1 \<or> 4 < n then None
        else if length r < 3 * (n - 1) then None
        else
          (case continuation_octets (n - 1) r of
             None \<Rightarrow> None
           | Some octets \<Rightarrow>
               (case utf8_code_point (b # octets) of
                  None \<Rightarrow> None
                | Some v \<Rightarrow>
                    map_option ((@) (utf16_encode_code_point v))
                      (decodeURIComponent (drop (3 * (n - 1)) r)))))"
  unfolding lower_escape_def append_Cons append_Nil
  by (subst decodeURIComponent.simps(2))
    (simp add: parse_lower_escape Let_def drop_2_plus cong: option.case_cong if_cong)




lemma decodeURIComponent_Cons_nonempty: "decodeURIComponent (c # s) \<noteq> Some []"
  by (subst decodeURIComponent.simps(2))
    (auto simp add: Let_def utf16_encode_code_point_def split: option.splits if_splits)

lemma percent_lower_Cons: "concat (map percent_lower (c # r)) = 0x25 # tl (concat (map percent_lower (c # r)))"
  by (simp add: percent_lower_def)

lemma decode_escapes_nonempty:
  "bin \<noteq> [] \<Longrightarrow> decodeURIComponent (concat (map percent_lower bin)) \<noteq> Some []"
proof -
  assume "bin \<noteq> []"
  then obtain c r where b: "bin = c # r" by (cases bin) auto
  show ?thesis
    unfolding b by (subst percent_lower_Cons) (rule decodeURIComponent_Cons_nonempty)
qed

lemma sextets_nonempty: "2 \<le> length xs \<Longrightarrow> sextets_to_octets xs \<noteq> []"
  by (induction xs rule: sextets_to_octets.induct) simp_all

lemma length_strip_padding: "length d - 2 \<le> length (strip_padding d)"
  by (auto simp add: strip_padding_def)

lemma atob_nonempty:
  assumes "\<not> list_ex is_ascii_whitespace d" and "4 \<le> length d" and "length d mod 4 = 0"
    and "atob d = Some bin"
  shows "bin \<noteq> []"
proof -
  have f: "filter (\<lambda>c. \<not> is_ascii_whitespace c) d = d"
    using assms(1) by (auto simp add: list_ex_iff filter_id_conv)
  have l: "2 \<le> length (strip_padding d)"
    using length_strip_padding [of d] assms(2) by linarith
  from assms(4) have "bin = map of_nat (sextets_to_octets (map (\<lambda>c. the (base64_index c)) (strip_padding d)))"
    unfolding atob_def f Let_def using assms(3) by (simp split: if_splits)
  moreover have "sextets_to_octets (map (\<lambda>c. the (base64_index c)) (strip_padding d)) \<noteq> []"
    by (rule sextets_nonempty) (simp add: l)
  ultimately show ?thesis by simp
qed

lemma padded_length_mod4: "(n + (4 - n mod 4) mod 4) mod 4 = (0::nat)"
proof -
  have "n mod 4 < 4" by simp
  then consider "n mod 4 = 0" | "n mod 4 = 1" | "n mod 4 = 2" | "n mod 4 = 3" by linarith
  then show ?thesis
  proof cases
    case 1 then show ?thesis by simp
  next
    case 2
    have "(n + 3) mod 4 = (n mod 4 + 3) mod 4" by (simp only: mod_add_left_eq)
    with 2 show ?thesis by simp
  next
    case 3
    have "(n + 2) mod 4 = (n mod 4 + 2) mod 4" by (simp only: mod_add_left_eq)
    with 3 show ?thesis by simp
  next
    case 4
    have "(n + 1) mod 4 = (n mod 4 + 1) mod 4" by (simp only: mod_add_left_eq)
    with 4 show ?thesis by simp
  qed
qed

lemma padded_length_ge4: "0 < n \<Longrightarrow> 4 \<le> n + (4 - n mod 4) mod (4::nat)"
proof (rule ccontr)
  assume n: "0 < n" and "\<not> 4 \<le> n + (4 - n mod 4) mod 4"
  then have "n + (4 - n mod 4) mod 4 < 4" by linarith
  then have "(n + (4 - n mod 4) mod 4) mod 4 = n + (4 - n mod 4) mod 4" by (rule mod_less)
  then have "n + (4 - n mod 4) mod 4 = 0" unfolding padded_length_mod4 by (rule sym)
  with n show False by linarith
qed

lemma from_url_not_whitespace: "\<not> is_ascii_whitespace c \<Longrightarrow> \<not> is_ascii_whitespace (from_url c)"
  by (simp add: from_url_def is_ascii_whitespace_def)

lemma decodeText_not_empty_text:
  assumes "f \<noteq> []" and "\<not> list_ex is_ascii_whitespace f"
  shows "decodeText f \<noteq> Some []"
proof -
  let ?d = "map from_url f @ replicate ((4 - length (map from_url f) mod 4) mod 4) 0x3D"
  have w: "\<not> list_ex is_ascii_whitespace ?d"
    using assms(2) from_url_not_whitespace padding_not_whitespace
    by (auto simp add: list_ex_iff)
  have n: "0 < length f" using assms(1) by simp
  have l4: "4 \<le> length ?d" using padded_length_ge4 [OF n] by simp
  have m4: "length ?d mod 4 = 0" using padded_length_mod4 [of "length f"] by simp
  show ?thesis
  proof (cases "atob ?d")
    case None
    then show ?thesis by (simp add: decodeText_def replace_from_url Let_def)
  next
    case (Some bin)
    have "bin \<noteq> []" by (rule atob_nonempty [OF w l4 m4 Some])
    then have "decodeURIComponent (concat (map percent_lower bin)) \<noteq> Some []"
      by (rule decode_escapes_nonempty)
    with Some show ?thesis by (simp add: decodeText_def replace_from_url Let_def)
  qed
qed

lemma cp_div64_bound: "(cp::nat) < 0x800 \<Longrightarrow> cp div 64 < 32" by arith
lemma cp_div4096_bound: "(cp::nat) < 0x10000 \<Longrightarrow> cp div 4096 < 16" by arith
lemma cp_div262144_bound: "(cp::nat) < 0x110000 \<Longrightarrow> cp div 262144 < 5" by arith

lemma cp_two: "(cp::nat) div 64 * 64 + cp mod 64 = cp" by simp

lemma dist64: "((a::nat) * 64 + b) * 64 = a * 4096 + b * 64"
  by (simp add: add_mult_distrib)

lemma dist4096: "((a::nat) * 64 + b) * 4096 = a * 262144 + b * 4096"
  by (simp add: add_mult_distrib)

lemma split64: "(q::nat) div 64 * 4096 + q mod 64 * 64 = q * 64"
proof -
  have "q div 64 * 4096 + q mod 64 * 64 = (q div 64 * 64 + q mod 64) * 64" by (rule dist64 [symmetric])
  also have "\<dots> = q * 64" by (simp only: div_mult_mod_eq)
  finally show ?thesis .
qed

lemma split4096: "(q::nat) div 64 * 262144 + q mod 64 * 4096 = q * 4096"
proof -
  have "q div 64 * 262144 + q mod 64 * 4096 = (q div 64 * 64 + q mod 64) * 4096"
    by (rule dist4096 [symmetric])
  also have "\<dots> = q * 4096" by (simp only: div_mult_mod_eq)
  finally show ?thesis .
qed

lemma cp_three: "(cp::nat) div 4096 * 4096 + cp div 64 mod 64 * 64 + cp mod 64 = cp"
proof -
  have d: "cp div 4096 = cp div 64 div 64" using div_mult2_eq [of cp 64 64] by simp
  show ?thesis unfolding d split64 by (simp only: div_mult_mod_eq)
qed

lemma cp_four:
  "(cp::nat) div 262144 * 262144 + cp div 4096 mod 64 * 4096 + cp div 64 mod 64 * 64 + cp mod 64 = cp"
proof -
  have d: "cp div 262144 = cp div 4096 div 64" using div_mult2_eq [of cp 4096 64] by simp
  show ?thesis unfolding d split4096 by (rule cp_three)
qed




lemma length_lower_escapes: "length (concat (map lower_escape bs)) = 3 * length bs"
  by (induction bs) (simp_all add: lower_escape_def)

lemma drop_lower_escapes: "drop (3 * length bs) (concat (map lower_escape bs) @ r) = r"
  using length_lower_escapes [of bs] by simp

lemma continuation_lower_escapes:
  "list_all (\<lambda>b. b < 256) bs \<Longrightarrow>
     continuation_octets (length bs) (concat (map lower_escape bs) @ r) = Some bs"
proof (induction bs)
  case Nil
  show ?case by simp
next
  case (Cons b bs)
  then have b: "b < 256" and r: "list_all (\<lambda>b. b < 256) bs" by simp_all
  have "continuation_octets (Suc (length bs)) (lower_escape b @ concat (map lower_escape bs) @ r)
        = map_option ((#) b) (continuation_octets (length bs) (concat (map lower_escape bs) @ r))"
    by (rule continuation_lower_escape [OF b])
  then show ?case using Cons.IH [OF r] by simp
qed

lemma decode_multi_octet:
  assumes "b < 256" and "list_all (\<lambda>b. b < 256) bs"
    and "leading_ones b = Suc (length bs)" and "bs \<noteq> []" and "length bs \<le> 3"
  shows "decodeURIComponent (lower_escape b @ concat (map lower_escape bs) @ r) =
           (case utf8_code_point (b # bs) of
              None \<Rightarrow> None
            | Some v \<Rightarrow> map_option ((@) (utf16_encode_code_point v)) (decodeURIComponent r))"
proof -
  have n: "leading_ones b - 1 = length bs" using assms(3) by simp
  have l: "\<not> length (concat (map lower_escape bs) @ r) < 3 * length bs"
    using length_lower_escapes [of bs] by simp
  have z: "leading_ones b \<noteq> 0" "\<not> (leading_ones b = 1 \<or> 4 < leading_ones b)"
    using assms(3,4,5) by (cases bs; simp)+
  show ?thesis
    unfolding decode_lower_escape [OF assms(1)] Let_def n drop_lower_escapes
    using z l by (simp add: continuation_lower_escapes [OF assms(2)])
qed

lemma decode_ascii_octet:
  "b < 0x80 \<Longrightarrow>
     decodeURIComponent (lower_escape b @ r) = map_option ((#) (of_nat b)) (decodeURIComponent r)"
proof -
  assume a: "b < 0x80"
  then have b: "b < 256" by simp
  from a have z: "leading_ones b = 0" by (simp add: leading_ones_def)
  show ?thesis unfolding decode_lower_escape [OF b] Let_def z by simp
qed




lemma continuation_mod64: "is_continuation (0x80 + n mod 64)"
proof -
  have "n mod 64 < 64" by simp
  then show ?thesis unfolding is_continuation_def by linarith
qed

lemma utf8_code_point_two:
  "0x80 \<le> cp \<Longrightarrow> utf8_code_point [0xC0 + cp div 64, 0x80 + cp mod 64] = Some cp"
  by (simp add: continuation_mod64)

lemma utf8_code_point_three:
  assumes "0x800 \<le> cp" and "\<not> (0xD800 \<le> cp \<and> cp \<le> 0xDFFF)"
  shows "utf8_code_point [0xE0 + cp div 4096, 0x80 + cp div 64 mod 64, 0x80 + cp mod 64] = Some cp"
proof -
  have v: "(0xE0 + cp div 4096 - 0xE0) * 0x1000 + (0x80 + cp div 64 mod 64 - 0x80) * 0x40
             + (0x80 + cp mod 64 - 0x80) = cp"
    using cp_three [of cp] by simp
  show ?thesis
    unfolding utf8_code_point.simps v Let_def
    using assms by (simp add: continuation_mod64)
qed

lemma utf8_code_point_four:
  assumes "0x10000 \<le> cp" and "cp < 0x110000"
  shows "utf8_code_point
           [0xF0 + cp div 262144, 0x80 + cp div 4096 mod 64, 0x80 + cp div 64 mod 64,
            0x80 + cp mod 64] = Some cp"
proof -
  have v: "(0xF0 + cp div 262144 - 0xF0) * 0x40000 + (0x80 + cp div 4096 mod 64 - 0x80) * 0x1000
             + (0x80 + cp div 64 mod 64 - 0x80) * 0x40 + (0x80 + cp mod 64 - 0x80) = cp"
    using cp_four [of cp] by simp
  show ?thesis
    unfolding utf8_code_point.simps v Let_def
    using assms by (simp add: continuation_mod64)
qed

lemma mod64_octet: "0x80 + n mod 64 < (256::nat)"
proof -
  have "n mod 64 < 64" by simp
  then show ?thesis by linarith
qed

lemma decode_code_point:
  assumes "valid_code_point cp"
  shows "decodeURIComponent (concat (map lower_escape (utf8_octets cp)) @ r)
         = map_option ((@) (utf16_encode_code_point cp)) (decodeURIComponent r)"
proof -
  from assms have lt: "cp < 0x110000" and ns: "\<not> (0xD800 \<le> cp \<and> cp \<le> 0xDFFF)"
    by (simp_all add: valid_code_point_def)
  consider "cp < 0x80" | "0x80 \<le> cp \<and> cp < 0x800" | "0x800 \<le> cp \<and> cp < 0x10000"
    | "0x10000 \<le> cp" by linarith
  then show ?thesis
  proof cases
    case 1
    then have o: "utf8_octets cp = [cp]" by (simp add: utf8_octets_def)
    have u: "utf16_encode_code_point cp = [of_nat cp]"
      using 1 by (simp add: utf16_encode_code_point_def)
    have "decodeURIComponent (lower_escape cp @ r)
          = map_option ((#) (of_nat cp)) (decodeURIComponent r)"
      by (rule decode_ascii_octet [OF 1])
    moreover have "(@) [of_nat cp :: code_unit] = (#) (of_nat cp)" by (rule ext) simp
    ultimately show ?thesis unfolding o u by simp
  next
    case 2
    then have o: "utf8_octets cp = [0xC0 + cp div 64, 0x80 + cp mod 64]"
      by (simp add: utf8_octets_def)
    have q: "cp div 64 < 32" using 2 by (simp add: cp_div64_bound)
    have b: "0xC0 + cp div 64 < 256" using q by linarith
    have l: "leading_ones (0xC0 + cp div 64) = Suc (length [0x80 + cp mod 64])"
      using q by (simp add: leading_ones_def)
    have "decodeURIComponent
            (lower_escape (0xC0 + cp div 64) @ concat (map lower_escape [0x80 + cp mod 64]) @ r)
          = (case utf8_code_point [0xC0 + cp div 64, 0x80 + cp mod 64] of
               None \<Rightarrow> None
             | Some v \<Rightarrow> map_option ((@) (utf16_encode_code_point v)) (decodeURIComponent r))"
      by (rule decode_multi_octet [OF b _ l]) (simp_all add: mod64_octet)
    then show ?thesis
      unfolding o utf8_code_point_two [OF conjunct1 [OF 2]] by simp
  next
    case 3
    then have o: "utf8_octets cp
                  = [0xE0 + cp div 4096, 0x80 + cp div 64 mod 64, 0x80 + cp mod 64]"
      by (simp add: utf8_octets_def)
    have q: "cp div 4096 < 16" using 3 by (simp add: cp_div4096_bound)
    have b: "0xE0 + cp div 4096 < 256" using q by linarith
    have l: "leading_ones (0xE0 + cp div 4096)
             = Suc (length [0x80 + cp div 64 mod 64, 0x80 + cp mod 64])"
      using q by (simp add: leading_ones_def)
    have "decodeURIComponent
            (lower_escape (0xE0 + cp div 4096)
               @ concat (map lower_escape [0x80 + cp div 64 mod 64, 0x80 + cp mod 64]) @ r)
          = (case utf8_code_point [0xE0 + cp div 4096, 0x80 + cp div 64 mod 64, 0x80 + cp mod 64] of
               None \<Rightarrow> None
             | Some v \<Rightarrow> map_option ((@) (utf16_encode_code_point v)) (decodeURIComponent r))"
      by (rule decode_multi_octet [OF b _ l]) (simp_all add: mod64_octet)
    then show ?thesis
      unfolding o utf8_code_point_three [OF conjunct1 [OF 3] ns] by simp
  next
    case 4
    then have o: "utf8_octets cp
                  = [0xF0 + cp div 262144, 0x80 + cp div 4096 mod 64, 0x80 + cp div 64 mod 64,
                     0x80 + cp mod 64]"
      by (simp add: utf8_octets_def)
    have q: "cp div 262144 < 5" using lt by (rule cp_div262144_bound)
    have b: "0xF0 + cp div 262144 < 256" using q by linarith
    have l: "leading_ones (0xF0 + cp div 262144)
             = Suc (length [0x80 + cp div 4096 mod 64, 0x80 + cp div 64 mod 64, 0x80 + cp mod 64])"
      using q by (simp add: leading_ones_def)
    have "decodeURIComponent
            (lower_escape (0xF0 + cp div 262144)
               @ concat (map lower_escape
                   [0x80 + cp div 4096 mod 64, 0x80 + cp div 64 mod 64, 0x80 + cp mod 64]) @ r)
          = (case utf8_code_point
                    [0xF0 + cp div 262144, 0x80 + cp div 4096 mod 64, 0x80 + cp div 64 mod 64,
                     0x80 + cp mod 64] of
               None \<Rightarrow> None
             | Some v \<Rightarrow> map_option ((@) (utf16_encode_code_point v)) (decodeURIComponent r))"
      by (rule decode_multi_octet [OF b _ l]) (simp_all add: mod64_octet)
    then show ?thesis
      unfolding o utf8_code_point_four [OF 4 lt] by simp
  qed
qed




lemma utf16_unit:
  assumes "\<not> is_lead c" and "\<not> is_trail c"
  shows "valid_code_point (unat c)" and "utf16_encode_code_point (unat c) = [c]"
proof -
  have u: "unat c < 65536" by (rule unat_lt16)
  show "valid_code_point (unat c)"
    using assms u unfolding valid_code_point_def is_lead_def is_trail_def by linarith
  show "utf16_encode_code_point (unat c) = [c]"
    using u by (simp add: utf16_encode_code_point_def)
qed

lemma divmod1024: "(lo::nat) < 1024 \<Longrightarrow> (hi * 1024 + lo) div 1024 = hi \<and> (hi * 1024 + lo) mod 1024 = lo"
  by simp

lemma utf16_pair:
  assumes "is_lead l" and "is_trail t"
  shows "valid_code_point (surrogate_pair_to_code_point l t)"
    and "utf16_encode_code_point (surrogate_pair_to_code_point l t) = [l, t]"
proof -
  let ?hi = "unat l - 0xD800" and ?lo = "unat t - 0xDC00"
  have hi: "?hi + 0xD800 = unat l" and lo: "?lo + 0xDC00 = unat t" and lo_lt: "?lo < 1024"
    using assms unfolding is_lead_def is_trail_def by linarith+
  have r: "0x10000 \<le> surrogate_pair_to_code_point l t"
          "surrogate_pair_to_code_point l t < 0x110000"
    using surrogate_pair_range [OF assms] by simp_all
  show "valid_code_point (surrogate_pair_to_code_point l t)"
    using r unfolding valid_code_point_def by linarith
  have m: "surrogate_pair_to_code_point l t - 0x10000 = ?hi * 1024 + ?lo"
    by (simp add: surrogate_pair_to_code_point_def)
  have "utf16_encode_code_point (surrogate_pair_to_code_point l t)
        = [of_nat ((?hi * 1024 + ?lo) div 0x400 + 0xD800), of_nat ((?hi * 1024 + ?lo) mod 0x400 + 0xDC00)]"
    using r(1) unfolding utf16_encode_code_point_def m by simp
  also have "\<dots> = [of_nat (?hi + 0xD800), of_nat (?lo + 0xDC00)]"
    using divmod1024 [OF lo_lt, of ?hi] by simp
  also have "\<dots> = [l, t]" unfolding hi lo by simp
  finally show "utf16_encode_code_point (surrogate_pair_to_code_point l t) = [l, t]" .
qed

lemma decode_utf8_string:
  "well_formed s \<Longrightarrow> decodeURIComponent (concat (map lower_escape (utf8_string s))) = Some s"
proof (induction s rule: well_formed.induct)
  case 1
  show ?case by (simp add: decodeURIComponent.simps)
next
  case (2 c s)
  show ?case
  proof (cases "is_lead c")
    case True
    with "2.prems" obtain d s' where s: "s = d # s'" and d: "is_trail d" and w: "well_formed s'"
      by (auto split: list.splits)
    have ih: "decodeURIComponent (concat (map lower_escape (utf8_string s'))) = Some s'"
      by (rule "2.IH"(1) [OF True s w])
    have "decodeURIComponent
            (concat (map lower_escape (utf8_octets (surrogate_pair_to_code_point c d)))
               @ concat (map lower_escape (utf8_string s')))
          = map_option ((@) (utf16_encode_code_point (surrogate_pair_to_code_point c d)))
              (decodeURIComponent (concat (map lower_escape (utf8_string s'))))"
      by (rule decode_code_point [OF utf16_pair(1) [OF True d]])
    then show ?thesis
      unfolding ih utf16_pair(2) [OF True d] using True s by simp
  next
    case False
    with "2.prems" have nt: "\<not> is_trail c" and w: "well_formed s" by simp_all
    have ih: "decodeURIComponent (concat (map lower_escape (utf8_string s))) = Some s"
      by (rule "2.IH"(2) [OF False w])
    have "decodeURIComponent
            (concat (map lower_escape (utf8_octets (unat c)))
               @ concat (map lower_escape (utf8_string s)))
          = map_option ((@) (utf16_encode_code_point (unat c)))
              (decodeURIComponent (concat (map lower_escape (utf8_string s))))"
      by (rule decode_code_point [OF utf16_unit(1) [OF False nt]])
    then show ?thesis
      unfolding ih utf16_unit(2) [OF False nt] using False by simp
  qed
qed

lemma decodeText_encodeText:
  assumes "well_formed t"
  shows "encodeText t = Some (map to_url (base64_body (utf8_string t)))"
    and "decodeText (map to_url (base64_body (utf8_string t))) = Some t"
proof -
  show "encodeText t = Some (map to_url (base64_body (utf8_string t)))"
    by (rule encodeText_well_formed [OF assms])
  have "decodeText (map to_url (base64_body (utf8_string t)))
        = decodeURIComponent (concat (map percent_lower (map of_nat (utf8_string t))))"
    by (rule decodeText_token_of_body [OF utf8_string_bytes])
  also have "\<dots> = decodeURIComponent (concat (map lower_escape (utf8_string t)))"
    by (simp only: percent_lower_octets [OF utf8_string_bytes])
  also have "\<dots> = Some t" by (rule decode_utf8_string [OF assms])
  finally show "decodeText (map to_url (base64_body (utf8_string t))) = Some t" .
qed

text \<open>
  C1. For every valid Unicode string, the empty one included, encoding succeeds and
  decoding the token gives the string back.
\<close>

theorem codec_round_trip:
  assumes "well_formed t"
  shows "\<exists>token. encodeText t = Some token \<and> decodeText token = Some t"
  using decodeText_encodeText [OF assms] by blast

theorem codec_round_trip_witness:
  "well_formed [0x48, 0xD83C, 0xDF89, 0x65, 0x301, 0x4E16, 0x2B, 0x2F, 0x3D]
   \<and> (\<exists>token. encodeText [0x48, 0xD83C, 0xDF89, 0x65, 0x301, 0x4E16, 0x2B, 0x2F, 0x3D] = Some token
         \<and> decodeText token = Some [0x48, 0xD83C, 0xDF89, 0x65, 0x301, 0x4E16, 0x2B, 0x2F, 0x3D])
   \<and> well_formed []
   \<and> (\<exists>token. encodeText [] = Some token \<and> decodeText token = Some [])"
proof -
  have a: "well_formed [0x48, 0xD83C, 0xDF89, 0x65, 0x301, 0x4E16, 0x2B, 0x2F, 0x3D]"
    by (simp add: is_lead_def is_trail_def)
  have b: "well_formed []" by simp
  from a b codec_round_trip [OF a] codec_round_trip [OF b] show ?thesis by blast
qed

text \<open>
  C2. Whenever encoding succeeds, every character of the token is a letter, a digit,
  \<open>-\<close> or \<open>_\<close>: the token holds no \<open>+\<close>, no \<open>/\<close> and no \<open>=\<close>.
\<close>

theorem token_alphabet:
  assumes "encodeText t = Some token"
  shows "list_all is_token_char token
         \<and> 0x2B \<notin> set token \<and> 0x2F \<notin> set token \<and> 0x3D \<notin> set token"
proof -
  have w: "well_formed t" by (rule encodeText_Some_well_formed [OF assms])
  have "token = map to_url (base64_body (utf8_string t))"
    using encodeText_well_formed [OF w] assms by simp
  then have a: "list_all is_token_char token" by (simp only: token_of_body)
  have n: "\<not> is_token_char 0x2B" "\<not> is_token_char 0x2F" "\<not> is_token_char 0x3D"
    by (simp_all add: is_token_char_def)
  from a n show ?thesis by (auto simp add: list_all_iff)
qed

theorem token_alphabet_witness:
  "encodeText (ascii ''??>'') = Some (ascii ''Pz8-'')
   \<and> list_all is_token_char (ascii ''Pz8-'')
   \<and> 0x2B \<notin> set (ascii ''Pz8-'') \<and> 0x2F \<notin> set (ascii ''Pz8-'') \<and> 0x3D \<notin> set (ascii ''Pz8-'')"
proof -
  have w: "well_formed (ascii ''??>'')" by (simp add: ascii_def is_lead_def is_trail_def)
  have u: "utf8_string (ascii ''??>'') = [63, 63, 62]"
    by (simp add: ascii_def is_lead_def utf8_octets_def)
  have b: "map to_url (base64_body [63, 63, 62]) = ascii ''Pz8-''"
    by (simp add: base64_char_def to_url_def ascii_def)
  have e: "encodeText (ascii ''??>'') = Some (ascii ''Pz8-'')"
    unfolding encodeText_well_formed [OF w] u b by (rule refl)
  from e token_alphabet [OF e] show ?thesis by blast
qed

section \<open>History store\<close>

lemma updatedHistory_take: "updatedHistory e (take 5 h) = take 5 (e # h)"
  by (simp add: updatedHistory_def)

lemma foldl_updatedHistory:
  "foldl (\<lambda>h e. updatedHistory e h) (take 5 h) es = take 5 (rev es @ h)"
proof (induction es arbitrary: h)
  case Nil
  show ?case by simp
next
  case (Cons e es)
  have "foldl (\<lambda>h e. updatedHistory e h) (take 5 h) (e # es)
        = foldl (\<lambda>h e. updatedHistory e h) (take 5 (e # h)) es"
    by (simp only: foldl_Cons updatedHistory_take)
  also have "\<dots> = take 5 (rev es @ e # h)" by (rule Cons.IH)
  finally show ?case by simp
qed

lemma st_history_handleGenerate:
  "st_history (handleGenerate p w) =
     (if trim (st_text w) = [] then st_history w
      else updatedHistory
             (newHistoryItem p (st_text w)
                (origin p @ pathname p @ [0x23] @ template_string (encodeText (st_text w))))
             (st_history w))"
  by (simp add: handleGenerate_def showToast_def Let_def)

text \<open>
  C5. Appending puts the new entry at the front and keeps at most five entries, whatever
  the list was; from the second append on the list never exceeds five; a run of appends
  from the empty list leaves the five most recent entries, most recent first, so seven
  appends leave the last five; and this is what link generation does to the history.
\<close>

theorem history_append_bounded:
  "updatedHistory e h = e # take 4 h
   \<and> length (updatedHistory e h) \<le> 5
   \<and> length (foldl (\<lambda>h e. updatedHistory e h) (updatedHistory e h) es) \<le> 5
   \<and> foldl (\<lambda>h e. updatedHistory e h) [] es = take 5 (rev es)
   \<and> foldl (\<lambda>h e. updatedHistory e h) [] [e1, e2, e3, e4, e5, e6, e7] = [e7, e6, e5, e4, e3]
   \<and> st_history (handleGenerate p w) =
       (if trim (st_text w) = [] then st_history w
        else updatedHistory
               (newHistoryItem p (st_text w)
                  (origin p @ pathname p @ [0x23] @ template_string (encodeText (st_text w))))
               (st_history w))"
proof -
  have a: "updatedHistory e h = e # take 4 h" by (simp add: updatedHistory_def)
  have b: "length (updatedHistory e h) \<le> 5" by (simp add: updatedHistory_def)
  have "foldl (\<lambda>h e. updatedHistory e h) (updatedHistory e h) es = take 5 (rev es @ e # h)"
    unfolding updatedHistory_def [of e h] by (rule foldl_updatedHistory)
  then have c: "length (foldl (\<lambda>h e. updatedHistory e h) (updatedHistory e h) es) \<le> 5"
    by simp
  have d: "foldl (\<lambda>h e. updatedHistory e h) [] es = take 5 (rev es)"
    using foldl_updatedHistory [of "[]" es] by simp
  have e: "foldl (\<lambda>h e. updatedHistory e h) [] [e1, e2, e3, e4, e5, e6, e7]
           = [e7, e6, e5, e4, e3]"
    by (simp add: updatedHistory_def)
  from a b c d e st_history_handleGenerate [of p w] show ?thesis by blast
qed

theorem history_append_bounded_witness:
  "foldl (\<lambda>h e. updatedHistory e h) []
     [newHistoryItem example_platform [1] [], newHistoryItem example_platform [2] [],
      newHistoryItem example_platform [3] [], newHistoryItem example_platform [4] [],
      newHistoryItem example_platform [5] [], newHistoryItem example_platform [6] [],
      newHistoryItem example_platform [7] []]
   = [newHistoryItem example_platform [7] [], newHistoryItem example_platform [6] [],
      newHistoryItem example_platform [5] [], newHistoryItem example_platform [4] [],
      newHistoryItem example_platform [3] []]"
  using history_append_bounded
    [of "newHistoryItem example_platform [1] []" "[]" "[]"
        "newHistoryItem example_platform [1] []" "newHistoryItem example_platform [2] []"
        "newHistoryItem example_platform [3] []" "newHistoryItem example_platform [4] []"
        "newHistoryItem example_platform [5] []" "newHistoryItem example_platform [6] []"
        "newHistoryItem example_platform [7] []" example_platform "initial_state [] None"]
  by blast

section \<open>Link generation\<close>

lemma trim_blank: "list_all is_js_whitespace s \<Longrightarrow> trim s = []"
proof -
  assume "list_all is_js_whitespace s"
  then have h: "dropWhile is_js_whitespace s = []"
    by (simp add: list_all_iff)
  show ?thesis unfolding trim_def h by simp
qed

lemma trim_nonblank: "\<not> list_all is_js_whitespace s \<Longrightarrow> trim s \<noteq> []"
proof -
  assume a: "\<not> list_all is_js_whitespace s"
  then have n: "dropWhile is_js_whitespace s \<noteq> []"
    by (simp add: list_all_iff)
  then have "\<not> is_js_whitespace (hd (dropWhile is_js_whitespace s))"
    by (rule hd_dropWhile)
  moreover have "hd (dropWhile is_js_whitespace s) \<in> set (rev (dropWhile is_js_whitespace s))"
    using n by simp
  ultimately have "dropWhile is_js_whitespace (rev (dropWhile is_js_whitespace s)) \<noteq> []"
    unfolding dropWhile_eq_Nil_conv by blast
  then show ?thesis by (simp add: trim_def)
qed

text \<open>
  C8. When the text is empty or holds nothing but white space, link generation only
  raises the error toast: the generated link, the history and the stored history are
  what they were, and no entry is added.
\<close>

theorem blank_input_rejected:
  assumes "list_all is_js_whitespace (st_text w)"
  shows "handleGenerate p w = showToast ''Please enter some text first!'' Error w
         \<and> st_generatedLink (handleGenerate p w) = st_generatedLink w
         \<and> st_history (handleGenerate p w) = st_history w
         \<and> storage (handleGenerate p w) = storage w
         \<and> st_toast (handleGenerate p w)
             = Some \<lparr>message = ''Please enter some text first!'', toast_kind = Error\<rparr>"
  using trim_blank [OF assms] by (simp add: handleGenerate_def showToast_def)

theorem blank_input_rejected_witness:
  "list_all is_js_whitespace (st_text (fresh_with_text [0x20, 0x09, 0x0A, 0x3000]))
   \<and> handleGenerate example_platform (fresh_with_text [0x20, 0x09, 0x0A, 0x3000])
       = showToast ''Please enter some text first!'' Error
           (fresh_with_text [0x20, 0x09, 0x0A, 0x3000])"
proof -
  have h: "list_all is_js_whitespace (st_text (fresh_with_text [0x20, 0x09, 0x0A, 0x3000]))"
    by (simp add: fresh_with_text_def is_js_whitespace_def)
  from h blank_input_rejected [OF h, of example_platform] show ?thesis
    by blast
qed

text \<open>
  C10. In Create mode with text that is not blank, link generation changes the generated
  link, the history (with its stored copy) and the toast, and nothing else: the text and
  the mode stay, and when encoding succeeds the link ends in the token of the text still
  held in the field.
\<close>

theorem generate_keeps_text_and_mode:
  assumes "st_mode w = Create" and "\<not> list_all is_js_whitespace (st_text w)"
  shows "st_text (handleGenerate p w) = st_text w
         \<and> st_mode (handleGenerate p w) = Create
         \<and> handleGenerate p w =
             w\<lparr>st_generatedLink := st_generatedLink (handleGenerate p w),
               st_history := st_history (handleGenerate p w),
               storage := storage (handleGenerate p w),
               st_toast := st_toast (handleGenerate p w)\<rparr>
         \<and> (\<forall>token. encodeText (st_text w) = Some token \<longrightarrow>
               st_generatedLink (handleGenerate p w) = origin p @ pathname p @ [0x23] @ token
               \<and> encodeText (st_text (handleGenerate p w)) = Some token)"
  using assms(1) trim_nonblank [OF assms(2)]
  by (simp add: handleGenerate_def showToast_def Let_def template_string_def)

theorem generate_keeps_text_and_mode_witness:
  "st_mode (fresh_with_text (ascii ''Hi'')) = Create
   \<and> \<not> list_all is_js_whitespace (st_text (fresh_with_text (ascii ''Hi'')))
   \<and> encodeText (st_text (fresh_with_text (ascii ''Hi''))) = Some (ascii ''SGk'')
   \<and> st_text (handleGenerate example_platform (fresh_with_text (ascii ''Hi''))) = ascii ''Hi''
   \<and> st_mode (handleGenerate example_platform (fresh_with_text (ascii ''Hi''))) = Create
   \<and> st_generatedLink (handleGenerate example_platform (fresh_with_text (ascii ''Hi'')))
       = ascii ''https://x.test/app#SGk''"
proof -
  have t: "st_text (fresh_with_text (ascii ''Hi'')) = ascii ''Hi''"
    by (simp add: fresh_with_text_def)
  have m: "st_mode (fresh_with_text (ascii ''Hi'')) = Create"
    by (simp add: fresh_with_text_def initial_state_def)
  have n: "\<not> list_all is_js_whitespace (st_text (fresh_with_text (ascii ''Hi'')))"
    unfolding t by (simp add: ascii_def is_js_whitespace_def)
  have e: "encodeText (st_text (fresh_with_text (ascii ''Hi''))) = Some (ascii ''SGk'')"
    unfolding t by code_simp
  have l: "origin example_platform @ pathname example_platform @ [0x23] @ ascii ''SGk''
           = ascii ''https://x.test/app#SGk''"
    by (simp add: example_platform_def ascii_def)
  note g = generate_keeps_text_and_mode [OF m n, of example_platform]
  from g have g1: "st_text (handleGenerate example_platform (fresh_with_text (ascii ''Hi'')))
                   = st_text (fresh_with_text (ascii ''Hi''))"
    by (rule conjunct1)
  from g have g2: "st_mode (handleGenerate example_platform (fresh_with_text (ascii ''Hi''))) = Create"
    by blast
  from g e have g3: "st_generatedLink (handleGenerate example_platform (fresh_with_text (ascii ''Hi'')))
       = origin example_platform @ pathname example_platform @ [0x23] @ ascii ''SGk''"
    by blast
  from m n e g1 g2 g3 show ?thesis unfolding l t by blast
qed

text \<open>
  C7 on the code. A lone surrogate cannot be encoded, so \<open>encodeText\<close> returns \<open>null\<close>;
  \<open>handleGenerate\<close> does not test for it: the link ends in \<open>#null\<close>, an entry with that
  link goes into the history and the store, and the toast reports success.
\<close>

theorem generate_after_encode_failure:
  "encodeText [0xD800] = None
   \<and> st_generatedLink (handleGenerate p (w\<lparr>st_text := [0xD800]\<rparr>))
       = origin p @ pathname p @ ascii ''#null''
   \<and> st_history (handleGenerate p (w\<lparr>st_text := [0xD800]\<rparr>))
       = updatedHistory
           \<lparr>item_id = now p, preview = [0xD800], date = localeDate p,
            link = origin p @ pathname p @ ascii ''#null''\<rparr>
           (st_history w)
   \<and> st_toast (handleGenerate p (w\<lparr>st_text := [0xD800]\<rparr>))
       = Some \<lparr>message = ''Link generated successfully!'', toast_kind = Success\<rparr>"
proof -
  have e: "encodeText [0xD800] = None"
    by (simp add: encodeText_def uri_unescaped_def is_trail_def is_lead_def)
  have t: "trim [0xD800] \<noteq> []"
    by (simp add: trim_def is_js_whitespace_def)
  have n: "[0x23] @ ascii ''null'' = ascii ''#null''" by (simp add: ascii_def)
  show ?thesis
    using e t n
    by (simp add: handleGenerate_def Let_def showToast_def template_string_def
          newHistoryItem_def)
qed

section \<open>Link router\<close>

lemma handleHashChange_empty:
  "fragment w = [] \<Longrightarrow> handleHashChange w = w\<lparr>st_mode := Create, st_text := []\<rparr>"
  by (simp add: handleHashChange_def location_hash_def)

lemma handleHashChange_view:
  "fragment w \<noteq> [] \<Longrightarrow> decodeText (fragment w) = Some d \<Longrightarrow> d \<noteq> [] \<Longrightarrow>
     handleHashChange w = w\<lparr>st_text := d, st_mode := View\<rparr>"
  by (simp add: handleHashChange_def location_hash_def)

lemma handleHashChange_invalid:
  "fragment w \<noteq> [] \<Longrightarrow> decodeText (fragment w) = None \<or> decodeText (fragment w) = Some [] \<Longrightarrow>
     handleHashChange w =
       w\<lparr>st_toast := Some \<lparr>message = ''Invalid or corrupted link'', toast_kind = Error\<rparr>,
         fragment := [], st_mode := Create\<rparr>"
  by (auto simp add: handleHashChange_def location_hash_def showToast_def)

lemma hashchange_empty:
  "fragment w = [] \<Longrightarrow> hashchange w = w\<lparr>st_mode := Create, st_text := []\<rparr>"
  by (subst hashchange.simps) (simp add: handleHashChange_empty)

lemma hashchange_view:
  "fragment w \<noteq> [] \<Longrightarrow> decodeText (fragment w) = Some d \<Longrightarrow> d \<noteq> [] \<Longrightarrow>
     hashchange w = w\<lparr>st_text := d, st_mode := View\<rparr>"
  by (subst hashchange.simps) (simp add: handleHashChange_view)

lemma hashchange_invalid:
  assumes "fragment w \<noteq> []"
    and "decodeText (fragment w) = None \<or> decodeText (fragment w) = Some []"
  shows "hashchange w =
           w\<lparr>st_toast := Some \<lparr>message = ''Invalid or corrupted link'', toast_kind = Error\<rparr>,
             fragment := [], st_mode := Create, st_text := []\<rparr>"
proof -
  let ?w' = "w\<lparr>st_toast := Some \<lparr>message = ''Invalid or corrupted link'', toast_kind = Error\<rparr>,
               fragment := [], st_mode := Create\<rparr>"
  have h: "handleHashChange w = ?w'" by (rule handleHashChange_invalid [OF assms])
  have "hashchange w = hashchange ?w'"
    by (subst hashchange.simps) (simp add: h Let_def assms(1) [symmetric])
  also have "\<dots> = ?w'\<lparr>st_mode := Create, st_text := []\<rparr>"
    by (rule hashchange_empty) simp
  finally show ?thesis by simp
qed

text \<open>
  C9. Routing the same fragment twice in a row gives the state the first routing gave:
  the same mode, the same text, and nothing else changed. This holds for the routing as
  the browser runs it, with the event the handler itself may raise, and for a single run
  of the handler as well.
\<close>

theorem navigate_idempotent:
  "navigate f (navigate f w) = navigate f w
   \<and> st_mode (navigate f (navigate f w)) = st_mode (navigate f w)
   \<and> st_text (navigate f (navigate f w)) = st_text (navigate f w)
   \<and> handleHashChange ((handleHashChange (w\<lparr>fragment := f\<rparr>))\<lparr>fragment := f\<rparr>)
       = handleHashChange (w\<lparr>fragment := f\<rparr>)"
proof -
  have one: "handleHashChange ((handleHashChange (w\<lparr>fragment := f\<rparr>))\<lparr>fragment := f\<rparr>)
             = handleHashChange (w\<lparr>fragment := f\<rparr>)"
    by (simp add: handleHashChange_def location_hash_def showToast_def Let_def
          split: option.splits)
  have "navigate f (navigate f w) = navigate f w"
  proof (cases "f = []")
    case True
    then show ?thesis by (simp add: navigate_def hashchange_empty)
  next
    case False
    show ?thesis
    proof (cases "decodeText f = None \<or> decodeText f = Some []")
      case True
      have a: "navigate f v =
                 v\<lparr>st_toast := Some \<lparr>message = ''Invalid or corrupted link'', toast_kind = Error\<rparr>,
                   fragment := [], st_mode := Create, st_text := []\<rparr>" for v
        unfolding navigate_def using False True by (simp add: hashchange_invalid)
      show ?thesis unfolding a by simp
    next
      case no: False
      then obtain d where d: "decodeText f = Some d" "d \<noteq> []" by auto
      have a: "navigate f v = v\<lparr>fragment := f, st_text := d, st_mode := View\<rparr>" for v
        unfolding navigate_def using False d by (simp add: hashchange_view)
      show ?thesis unfolding a by simp
    qed
  qed
  with one show ?thesis by simp
qed

theorem navigate_idempotent_witness:
  "navigate (ascii ''SGk'') (navigate (ascii ''SGk'') (initial_state [] None))
   = navigate (ascii ''SGk'') (initial_state [] None)"
  using navigate_idempotent [of "ascii ''SGk''" "initial_state [] None"] by blast

lemma decodeText_blank_fragment: "decodeText (ascii ''    '') = Some []"
  by code_simp

text \<open>
  C3. A fragment read from \<open>window.location.hash\<close> holds no ASCII white space: the URL
  serialiser percent-encodes it. When such a fragment, not empty, is routed: if it
  decodes, the mode is View and the text is the decoded string, nothing else changed;
  if it does not, the error toast is raised, the fragment is cleared, the mode is Create
  and the text is empty. The failing run of the handler leaves the text as it was; its
  assignment to the fragment raises the event again, and that run empties the text.
\<close>

theorem fragment_routing:
  assumes "f \<noteq> []" and "\<not> list_ex is_ascii_whitespace f"
  shows "(\<forall>d. decodeText f = Some d \<longrightarrow>
            st_mode (navigate f w) = View \<and> st_text (navigate f w) = d
            \<and> navigate f w = w\<lparr>fragment := f, st_text := d, st_mode := View\<rparr>)
         \<and> (decodeText f = None \<longrightarrow>
            st_toast (navigate f w)
              = Some \<lparr>message = ''Invalid or corrupted link'', toast_kind = Error\<rparr>
            \<and> fragment (navigate f w) = []
            \<and> st_mode (navigate f w) = Create
            \<and> st_text (navigate f w) = []
            \<and> navigate f w =
                w\<lparr>st_toast := Some \<lparr>message = ''Invalid or corrupted link'', toast_kind = Error\<rparr>,
                  fragment := [], st_mode := Create, st_text := []\<rparr>)"
proof (intro conjI allI impI)
  fix d
  assume d: "decodeText f = Some d"
  with decodeText_not_empty_text [OF assms] have n: "d \<noteq> []" by auto
  have e: "navigate f w = w\<lparr>fragment := f, st_text := d, st_mode := View\<rparr>"
    unfolding navigate_def using assms(1) d n by (simp add: hashchange_view)
  show "navigate f w = w\<lparr>fragment := f, st_text := d, st_mode := View\<rparr>" by (rule e)
  show "st_mode (navigate f w) = View" unfolding e by simp
  show "st_text (navigate f w) = d" unfolding e by simp
next
  assume d: "decodeText f = None"
  have e: "navigate f w =
             w\<lparr>st_toast := Some \<lparr>message = ''Invalid or corrupted link'', toast_kind = Error\<rparr>,
               fragment := [], st_mode := Create, st_text := []\<rparr>"
    unfolding navigate_def using assms(1) d by (simp add: hashchange_invalid)
  show "navigate f w =
             w\<lparr>st_toast := Some \<lparr>message = ''Invalid or corrupted link'', toast_kind = Error\<rparr>,
               fragment := [], st_mode := Create, st_text := []\<rparr>" by (rule e)
  show "st_toast (navigate f w)
          = Some \<lparr>message = ''Invalid or corrupted link'', toast_kind = Error\<rparr>"
    unfolding e by simp
  show "fragment (navigate f w) = []" unfolding e by simp
  show "st_mode (navigate f w) = Create" unfolding e by simp
  show "st_text (navigate f w) = []" unfolding e by simp
qed

theorem fragment_routing_witness:
  "ascii ''SGk'' \<noteq> [] \<and> \<not> list_ex is_ascii_whitespace (ascii ''SGk'')
   \<and> decodeText (ascii ''SGk'') = Some (ascii ''Hi'')
   \<and> st_mode (navigate (ascii ''SGk'') (initial_state [] None)) = View
   \<and> st_text (navigate (ascii ''SGk'') (initial_state [] None)) = ascii ''Hi''
   \<and> ascii ''!!!'' \<noteq> [] \<and> \<not> list_ex is_ascii_whitespace (ascii ''!!!'')
   \<and> decodeText (ascii ''!!!'') = None
   \<and> st_toast (navigate (ascii ''!!!'') (fresh_with_text (ascii ''draft'')))
       = Some \<lparr>message = ''Invalid or corrupted link'', toast_kind = Error\<rparr>
   \<and> fragment (navigate (ascii ''!!!'') (fresh_with_text (ascii ''draft''))) = []
   \<and> st_mode (navigate (ascii ''!!!'') (fresh_with_text (ascii ''draft''))) = Create
   \<and> st_text (navigate (ascii ''!!!'') (fresh_with_text (ascii ''draft''))) = []"
proof -
  have a1: "ascii ''SGk'' \<noteq> []" by (simp add: ascii_def)
  have a2: "\<not> list_ex is_ascii_whitespace (ascii ''SGk'')"
    by (simp add: ascii_def is_ascii_whitespace_def)
  have a3: "decodeText (ascii ''SGk'') = Some (ascii ''Hi'')" by code_simp
  have b1: "ascii ''!!!'' \<noteq> []" by (simp add: ascii_def)
  have b2: "\<not> list_ex is_ascii_whitespace (ascii ''!!!'')"
    by (simp add: ascii_def is_ascii_whitespace_def)
  have b3: "decodeText (ascii ''!!!'') = None" by code_simp
  from fragment_routing [OF a1 a2, of "initial_state [] None"] a3
  have a: "st_mode (navigate (ascii ''SGk'') (initial_state [] None)) = View
           \<and> st_text (navigate (ascii ''SGk'') (initial_state [] None)) = ascii ''Hi''"
    by blast
  from fragment_routing [OF b1 b2, of "fresh_with_text (ascii ''draft'')"] b3
  have b: "st_toast (navigate (ascii ''!!!'') (fresh_with_text (ascii ''draft'')))
             = Some \<lparr>message = ''Invalid or corrupted link'', toast_kind = Error\<rparr>
           \<and> fragment (navigate (ascii ''!!!'') (fresh_with_text (ascii ''draft''))) = []
           \<and> st_mode (navigate (ascii ''!!!'') (fresh_with_text (ascii ''draft''))) = Create
           \<and> st_text (navigate (ascii ''!!!'') (fresh_with_text (ascii ''draft''))) = []"
    by blast
  from a1 a2 a3 a b1 b2 b3 b show ?thesis by blast
qed

section \<open>Start-up\<close>

lemma loadHistory_malformed:
  "storage w = Some s \<Longrightarrow> s \<noteq> [] \<Longrightarrow> JSON_parse p s = None \<Longrightarrow>
     loadHistory p w = Throws \<and> mountEffect p w = Throws"
  by (simp add: loadHistory_def mountEffect_def)

lemma loadHistory_absent:
  "storage w = None \<or> storage w = Some [] \<Longrightarrow> loadHistory p w = Returns w"
  by (auto simp add: loadHistory_def)

text \<open>
  C6 on the code. With the text \<open>{\<close> stored under the history key, \<open>JSON.parse\<close> throws
  and nothing catches it: loading the history does not return, and the effect that would
  go on to route the fragment stops with it.
\<close>

theorem malformed_history_throws:
  "JSON_parse example_platform (ascii ''{'') = None
   \<and> loadHistory example_platform (initial_state [] (Some (ascii ''{''))) = Throws
   \<and> mountEffect example_platform (initial_state [] (Some (ascii ''{''))) = Throws"
proof -
  have p: "JSON_parse example_platform (ascii ''{'') = None"
    by (simp add: example_platform_def ascii_def)
  have s: "storage (initial_state [] (Some (ascii ''{''))) = Some (ascii ''{'')"
    by (simp add: initial_state_def)
  have n: "ascii ''{'' \<noteq> []" by (simp add: ascii_def)
  from p loadHistory_malformed [OF s n p] show ?thesis by blast
qed

end
